theory Spec2Isabelle
  imports Main "HOL-Library.Multiset"
begin

section \<open>Data model of flowlib\<close>

text \<open>
  Python values that flow through the engine: the parsed JSON of a response, the values
  picked out of it by a path expression, and the leaves of a request-body template.
\<close>

datatype pyval =
    PNone
  | PBool bool
  | PInt int
  | PStr string
  | PList "pyval list"
  | PDict "(string \<times> pyval) list"

text \<open>
  A Python \<open>dict\<close> whose iteration order matters is an association list in insertion order.
  \<open>params\<close> is the \<open>Dict[str, str]\<close> of the source; \<open>outputs\<close> is the output map of a
  fetch (field name to extracted value).
\<close>

type_synonym params = "(string \<times> string) list"
type_synonym outputs = "(string \<times> pyval) list"

text \<open>\<open>d[k] = v\<close>: an existing key keeps its position, a new key goes to the end.\<close>

fun dict_set :: "'k \<Rightarrow> 'v \<Rightarrow> ('k \<times> 'v) list \<Rightarrow> ('k \<times> 'v) list" where
  "dict_set k v [] = [(k, v)]"
| "dict_set k v ((k', v') # d) =
     (if k' = k then (k', v) # d else (k', v') # dict_set k v d)"

text \<open>
  The exceptions the engine can meet. \<open>ClientResponseError\<close> stands for
  \<open>aiohttp.ClientResponseError\<close> and its subclasses and carries the status; a connection
  level failure (a reset, a refused connection) is an exception of another class.
\<close>

datatype exn =
    ClientResponseError int
  | ClientConnectionError string
  | KeyError string
  | OtherError string

datatype param_kind = URLParam | DataParam

text \<open>
  What \<open>session.request\<close> hands back: the status and what \<open>response.json()\<close> gives
  (it raises when the body is not JSON).
\<close>

record response =
  status :: int
  json :: "exn + pyval"

text \<open>
  The dataclass \<open>API\<close>, after \<open>__post_init__\<close> has replaced every \<open>None\<close> by \<open>{}\<close>.
  The field \<open>method\<close> of the source is \<open>http_method\<close> here.
\<close>

record API =
  base_url :: string
  http_method :: string
  input_params :: "(string \<times> param_kind) list"
  output_params :: "(string \<times> string) list"
  credentials :: "(string \<times> (string \<times> string) list) list"
  error_handlers :: "(int \<times> (response \<Rightarrow> exn + outputs)) list"
  data_template :: "(string \<times> pyval) list"

text \<open>
  A fetch result is the dict \<open>{'input': params, 'output': outputs}\<close>, or the empty dict
  \<open>{}\<close> that \<open>fetch_with_retry\<close> returns when it gives up.
\<close>

datatype fetch_result =
    Empty_result
  | Result params outputs

text \<open>\<open>start_response['output']\<close>: a \<open>KeyError\<close> on the empty dict.\<close>

fun subscript_output :: "fetch_result \<Rightarrow> exn + outputs" where
  "subscript_output Empty_result = Inl (KeyError ''output'')"
| "subscript_output (Result inp outp) = Inr outp"

text \<open>
  The dict \<open>results\<close> of \<open>run_flow\<close>, keyed by base URL. No claim depends on its order.
\<close>

type_synonym accumulator = "string \<rightharpoonup> fetch_result"

record request =
  req_method :: string
  req_url :: string
  req_headers :: "(string \<times> string) list option"
  req_cookies :: "(string \<times> string) list option"
  req_json :: "(string \<times> pyval) list"

text \<open>
  Everything the engine does to the outside world, in the order it happens: entering
  \<open>fetch_with_retry\<close>, issuing a request, calling an error handler, logging, sleeping,
  calling the linkage function, the transform function and the callback.
\<close>

datatype event =
    Fetch_with_retry string params
  | Request request
  | Handler_call int
  | Log_status string int
  | Log_retrying string int
  | Sleep nat
  | Log_gave_up int string
  | Linkage_call outputs
  | Transform_call accumulator
  | Callback accumulator

text \<open>
  The \<open>Getter\<close>: its cache, keyed by \<open>(api.base_url, frozenset(params.items()))\<close>, and
  \<open>max_retries\<close>; \<open>trace\<close> is the record of events so far. The semaphore is
  part of a run (see \<open>pool\<close>),
  and a call that runs alone always finds a permit.
\<close>

type_synonym cache_key = "string \<times> (string \<times> string) set"

record Getter =
  cache :: "cache_key \<rightharpoonup> fetch_result"
  max_retries :: int
  trace :: "event list"

text \<open>
  The collaborators that are not part of the repository: the network (the outcome of the
  \<open>i\<close>-th request issued, counted from 0), \<open>jsonpath_ng\<close> (\<open>parse(expr).find(doc)\<close>,
  as the list of the matches' values, or the parser's exception) and \<open>str.format\<close>.
\<close>

record env =
  net :: "nat \<Rightarrow> request \<Rightarrow> exn + response"
  jsonpath_find :: "string \<Rightarrow> pyval \<Rightarrow> exn + pyval list"
  format :: "string \<Rightarrow> params \<Rightarrow> exn + string"

datatype linkage =
    APILinkage API API "outputs \<Rightarrow> exn + params list"
  | PythonLinkage "accumulator \<Rightarrow> exn + accumulator"

type_synonym callback = "accumulator \<Rightarrow> exn + unit"

section \<open>The fetcher\<close>

text \<open>
  \<open>Getter.populate_template\<close>; an empty template gives the parameters themselves. The
  keys of a dict are distinct, so the loop \<open>populated[key] = ...\<close> keeps the template's order.
\<close>

fun populate_template :: "(string \<times> pyval) list \<Rightarrow> params \<Rightarrow> (string \<times> pyval) list"
  and populate_items :: "(string \<times> pyval) list \<Rightarrow> params \<Rightarrow> (string \<times> pyval) list"
  and populate_value :: "string \<Rightarrow> pyval \<Rightarrow> params \<Rightarrow> pyval" where
  "populate_template template ps =
     (if template = [] then map (\<lambda>(k, v). (k, PStr v)) ps else populate_items template ps)"
| "populate_items [] ps = []"
| "populate_items ((key, val) # rest) ps =
     (key, populate_value key val ps) # populate_items rest ps"
| "populate_value key (PDict d) ps = PDict (populate_template d ps)"
| "populate_value key PNone ps = (case map_of ps key of Some v \<Rightarrow> PStr v | None \<Rightarrow> PNone)"
| "populate_value key (PBool b) ps = (case map_of ps key of Some v \<Rightarrow> PStr v | None \<Rightarrow> PBool b)"
| "populate_value key (PInt i) ps = (case map_of ps key of Some v \<Rightarrow> PStr v | None \<Rightarrow> PInt i)"
| "populate_value key (PStr x) ps = (case map_of ps key of Some v \<Rightarrow> PStr v | None \<Rightarrow> PStr x)"
| "populate_value key (PList l) ps = (case map_of ps key of Some v \<Rightarrow> PStr v | None \<Rightarrow> PList l)"

fun is_request :: "event \<Rightarrow> bool" where
  "is_request (Request rq) = True"
| "is_request ev = False"

definition n_requests :: "event list \<Rightarrow> nat" where
  "n_requests t = length (filter is_request t)"

definition add_events :: "event list \<Rightarrow> Getter \<Rightarrow> Getter" where
  "add_events evs s = s\<lparr>trace := trace s @ evs\<rparr>"

text \<open>\<open>matches or None\<close>: the empty list is falsy.\<close>

definition matches_or_none :: "pyval list \<Rightarrow> pyval" where
  "matches_or_none matches = (if matches = [] then PNone else PList matches)"

text \<open>The loop over \<open>api.output_params.items()\<close> on a 200 response.\<close>

fun extract_outputs ::
  "env \<Rightarrow> pyval \<Rightarrow> (string \<times> string) list \<Rightarrow> outputs \<Rightarrow> exn + outputs" where
  "extract_outputs env response_json [] outs = Inr outs"
| "extract_outputs env response_json ((param_name, jsonpath_expr) # rest) outs =
     (case jsonpath_find env jsonpath_expr response_json of
        Inl e \<Rightarrow> Inl e
      | Inr matches \<Rightarrow>
          extract_outputs env response_json rest
            (dict_set param_name (matches_or_none matches) outs))"

text \<open>The \<open>else\<close> branch of \<open>fetch\<close>: a status other than 200.\<close>

definition handle_status ::
  "API \<Rightarrow> string \<Rightarrow> response \<Rightarrow> Getter \<Rightarrow> (exn + outputs) \<times> Getter" where
  "handle_status api url resp s =
     (case map_of (error_handlers api) (status resp) of
        Some error_handler \<Rightarrow> (error_handler resp, add_events [Handler_call (status resp)] s)
      | None \<Rightarrow> (Inr [], add_events [Log_status url (status resp)] s))"

definition build_request :: "API \<Rightarrow> string \<Rightarrow> params \<Rightarrow> request" where
  "build_request api url data_parameters =
     \<lparr>req_method = http_method api, req_url = url,
      req_headers = map_of (credentials api) ''headers'',
      req_cookies = map_of (credentials api) ''cookies'',
      req_json = populate_template (data_template api) data_parameters\<rparr>"

definition url_parameters :: "API \<Rightarrow> params \<Rightarrow> params" where
  "url_parameters api ps = filter (\<lambda>(k, v). map_of (input_params api) k = Some URLParam) ps"

definition data_parameters :: "API \<Rightarrow> params \<Rightarrow> params" where
  "data_parameters api ps = filter (\<lambda>(k, v). map_of (input_params api) k = Some DataParam) ps"

definition cache_key :: "API \<Rightarrow> params \<Rightarrow> cache_key" where
  "cache_key api ps = (base_url api, set ps)"

text \<open>\<open>Getter.fetch\<close>. An exception leaves the cache as it was.\<close>

definition fetch :: "env \<Rightarrow> API \<Rightarrow> params \<Rightarrow> Getter \<Rightarrow> (exn + fetch_result) \<times> Getter" where
  "fetch env api ps s =
     (case cache s (cache_key api ps) of
        Some cached \<Rightarrow> (Inr cached, s)
      | None \<Rightarrow>
          (case format env (base_url api) (url_parameters api ps) of
             Inl e \<Rightarrow> (Inl e, s)
           | Inr url \<Rightarrow>
               (let rq = build_request api url (data_parameters api ps);
                    s1 = add_events [Request rq] s
                in case net env (n_requests (trace s)) rq of
                     Inl e \<Rightarrow> (Inl e, s1)
                   | Inr resp \<Rightarrow>
                       (case (if status resp = 200
                              then (case json resp of
                                      Inl e \<Rightarrow> (Inl e, s1)
                                    | Inr response_json \<Rightarrow>
                                        (extract_outputs env response_json (output_params api) [], s1))
                              else handle_status api url resp s1) of
                          (Inl e, s2) \<Rightarrow> (Inl e, s2)
                        | (Inr outs, s2) \<Rightarrow>
                            (Inr (Result ps outs),
                             s2\<lparr>cache := (cache s2)(cache_key api ps \<mapsto> Result ps outs)\<rparr>)))))"

text \<open>
  The loop \<open>for retry in range(self.max_retries)\<close> of \<open>fetch_with_retry\<close>: \<open>Some\<close> is the
  \<open>return\<close> inside the loop, \<open>None\<close> is falling out of it. Only \<open>ClientResponseError\<close> is
  caught.
\<close>

fun retry_loop ::
  "env \<Rightarrow> API \<Rightarrow> params \<Rightarrow> nat list \<Rightarrow> Getter \<Rightarrow> (exn + fetch_result option) \<times> Getter" where
  "retry_loop env api ps [] s = (Inr None, s)"
| "retry_loop env api ps (retry # rest) s =
     (case fetch env api ps s of
        (Inr r, s') \<Rightarrow> (Inr (Some r), s')
      | (Inl (ClientResponseError st), s') \<Rightarrow>
          retry_loop env api ps rest
            (add_events [Log_retrying (base_url api) st, Sleep (2 ^ retry)] s')
      | (Inl e, s') \<Rightarrow> (Inl e, s'))"

definition fetch_with_retry ::
  "env \<Rightarrow> API \<Rightarrow> params \<Rightarrow> Getter \<Rightarrow> (exn + fetch_result) \<times> Getter" where
  "fetch_with_retry env api ps s =
     (case retry_loop env api ps [0..<nat (max_retries s)]
             (add_events [Fetch_with_retry (base_url api) ps] s) of
        (Inl e, s') \<Rightarrow> (Inl e, s')
      | (Inr (Some r), s') \<Rightarrow> (Inr r, s')
      | (Inr None, s') \<Rightarrow>
          (Inr Empty_result, add_events [Log_gave_up (max_retries s') (base_url api)] s'))"

section \<open>Coroutines\<close>

text \<open>
  \<open>fetch\<close> and \<open>fetch_with_retry\<close> above are a call during which no other task runs. Under
  \<open>asyncio.gather\<close> a call is a task: the event loop runs it from one \<open>await\<close> to the next,
  and other tasks run in between. A task of \<open>fetch_with_retry\<close> is suspended at one of:
  the start of its body, the semaphore, \<open>session.request\<close>, \<open>response.json()\<close>,
  \<open>response.release()\<close> or \<open>asyncio.sleep\<close>; each carries what the rest of the body
  needs (the number of the attempt, the URL and the request with its index, the response, the
  outputs).
\<close>

datatype fetch_task =
    Created
  | Acquiring
  | Await_request nat string request nat
  | Await_json nat response
  | Await_release nat outputs
  | Await_sleep nat
  | Finished "exn + fetch_result"

text \<open>
  The \<open>except\<close> clause of \<open>fetch_with_retry\<close>: a \<open>ClientResponseError\<close> is logged and the
  task sleeps; any other exception leaves the \<open>async with\<close>, which gives the permit back.
  The last argument and result is the number of free permits of the semaphore.
\<close>

definition on_exception ::
  "API \<Rightarrow> nat \<Rightarrow> exn \<Rightarrow> Getter \<Rightarrow> nat \<Rightarrow> fetch_task \<times> Getter \<times> nat" where
  "on_exception api retry e s free =
     (case e of
        ClientResponseError st \<Rightarrow>
          (Await_sleep retry,
           add_events [Log_retrying (base_url api) st, Sleep (2 ^ retry)] s, free)
      | _ \<Rightarrow> (Finished (Inl e), s, Suc free))"

text \<open>
  The head of the loop and the part of \<open>fetch\<close> before its first \<open>await\<close>: the cache test,
  the URL, and the request being issued.
\<close>

definition begin_attempt ::
  "env \<Rightarrow> API \<Rightarrow> params \<Rightarrow> nat \<Rightarrow> Getter \<Rightarrow> nat \<Rightarrow> fetch_task \<times> Getter \<times> nat" where
  "begin_attempt env api ps retry s free =
     (if retry < nat (max_retries s) then
        (case cache s (cache_key api ps) of
           Some cached \<Rightarrow> (Finished (Inr cached), s, Suc free)
         | None \<Rightarrow>
             (case format env (base_url api) (url_parameters api ps) of
                Inl e \<Rightarrow> on_exception api retry e s free
              | Inr url \<Rightarrow>
                  (let rq = build_request api url (data_parameters api ps)
                   in (Await_request retry url rq (n_requests (trace s)),
                       add_events [Request rq] s, free))))
      else (Finished (Inr Empty_result),
            add_events [Log_gave_up (max_retries s) (base_url api)] s, Suc free))"

text \<open>
  One turn of a task of \<open>fetch_with_retry\<close>: from where it is suspended to its next
  \<open>await\<close>, or to its end. A task that waits for the semaphore stays where it is while no
  permit is free.
\<close>

fun resume_fetch ::
  "env \<Rightarrow> API \<Rightarrow> params \<Rightarrow> fetch_task \<Rightarrow> Getter \<Rightarrow> nat \<Rightarrow> fetch_task \<times> Getter \<times> nat" where
  "resume_fetch env api ps Created s free =
     (let s' = add_events [Fetch_with_retry (base_url api) ps] s
      in if free = 0 then (Acquiring, s', free)
         else begin_attempt env api ps 0 s' (free - 1))"
| "resume_fetch env api ps Acquiring s free =
     (if free = 0 then (Acquiring, s, free)
      else begin_attempt env api ps 0 s (free - 1))"
| "resume_fetch env api ps (Await_request retry url rq i) s free =
     (case net env i rq of
        Inl e \<Rightarrow> on_exception api retry e s free
      | Inr resp \<Rightarrow>
          if status resp = 200 then (Await_json retry resp, s, free)
          else (case handle_status api url resp s of
                  (Inl e, s') \<Rightarrow> on_exception api retry e s' free
                | (Inr outs, s') \<Rightarrow> (Await_release retry outs, s', free)))"
| "resume_fetch env api ps (Await_json retry resp) s free =
     (case json resp of
        Inl e \<Rightarrow> on_exception api retry e s free
      | Inr response_json \<Rightarrow>
          (case extract_outputs env response_json (output_params api) [] of
             Inl e \<Rightarrow> on_exception api retry e s free
           | Inr outs \<Rightarrow> (Await_release retry outs, s, free)))"
| "resume_fetch env api ps (Await_release retry outs) s free =
     (Finished (Inr (Result ps outs)),
      s\<lparr>cache := (cache s)(cache_key api ps \<mapsto> Result ps outs)\<rparr>, Suc free)"
| "resume_fetch env api ps (Await_sleep retry) s free =
     begin_attempt env api ps (Suc retry) s free"
| "resume_fetch env api ps (Finished r) s free = (Finished r, s, free)"

text \<open>The same turn on a triple, and a task left to run alone for \<open>n\<close> turns.\<close>

definition turn ::
  "env \<Rightarrow> API \<Rightarrow> params \<Rightarrow> fetch_task \<times> Getter \<times> nat \<Rightarrow> fetch_task \<times> Getter \<times> nat" where
  "turn env api ps c = (case c of (t, s, free) \<Rightarrow> resume_fetch env api ps t s free)"

section \<open>The flow engine\<close>

datatype APIFlow = APIFlow (linkages: "linkage list")

text \<open>\<open>if not isinstance(values, list): values = [values]\<close>.\<close>

fun normalize_values :: "pyval \<Rightarrow> pyval list" where
  "normalize_values (PList vs) = vs"
| "normalize_values v = [v]"

text \<open>
  A task of \<open>process_linkage\<close> is suspended at \<open>await self.fetch_with_retry(...)\<close> for the start
  API, or at \<open>await asyncio.gather(...)\<close> inside the two loops. At the gather it holds the end
  API and the linkage function, the fields still to go (the first with the values still to
  go), the tasks it waits for with their parameter maps, and the first exception one of them
  has raised.
\<close>

datatype step_task =
    Not_started linkage
  | At_start API API "outputs \<Rightarrow> exn + params list" fetch_task
  | At_gather API "outputs \<Rightarrow> exn + params list" "(string \<times> pyval list) list"
      "(params \<times> fetch_task) list" "exn option"
  | Returned "exn + unit"

text \<open>
  The loops \<open>for key, values in outputs.items()\<close> and \<open>for value in values\<close>, run up to
  the next gather that has something to wait for, or to the end. A gather of no coroutines
  is done at once, with no response and so no callback.
\<close>

function fan_out ::
  "API \<Rightarrow> (outputs \<Rightarrow> exn + params list) \<Rightarrow> (string \<times> pyval list) list \<Rightarrow> Getter
     \<Rightarrow> step_task \<times> Getter" where
  "fan_out end_api linkage_function [] s = (Returned (Inr ()), s)"
| "fan_out end_api linkage_function ((key, []) # pending) s =
     fan_out end_api linkage_function pending s"
| "fan_out end_api linkage_function ((key, val # vals) # pending) s =
     (let output_data = [(key, val)];
          s1 = add_events [Linkage_call output_data] s
      in case linkage_function output_data of
           Inl e \<Rightarrow> (Returned (Inl e), s1)
         | Inr [] \<Rightarrow> fan_out end_api linkage_function ((key, vals) # pending) s1
         | Inr (end_params # rest) \<Rightarrow>
             (At_gather end_api linkage_function ((key, vals) # pending)
                (map (\<lambda>p. (p, Created)) (end_params # rest)) None, s1))"
  by pat_completeness auto
termination
  by (relation "measure (\<lambda>(b, f, pending, s). sum_list (map (\<lambda>(k, vs). Suc (length vs)) pending))")
     auto

text \<open>
  The loop \<open>for end_response in end_responses\<close>; a callback that raises ends it, with what
  has been written so far left in \<open>results\<close>.
\<close>

fun deliver ::
  "callback \<Rightarrow> string \<Rightarrow> fetch_result list \<Rightarrow> accumulator \<Rightarrow> Getter
     \<Rightarrow> exn option \<times> accumulator \<times> Getter" where
  "deliver cb url [] results s = (None, results, s)"
| "deliver cb url (end_response # rest) results s =
     (let results' = results(url \<mapsto> end_response);
          s' = add_events [Callback results'] s
      in case cb results' of
           Inl e \<Rightarrow> (Some e, results', s')
         | Inr u \<Rightarrow> deliver cb url rest results' s')"

text \<open>What a gather gives when every task has returned: the results, in the order of the tasks.\<close>

fun gathered :: "(params \<times> fetch_task) list \<Rightarrow> fetch_result list option" where
  "gathered [] = Some []"
| "gathered ((p, Finished (Inr r)) # children) =
     (case gathered children of None \<Rightarrow> None | Some rs \<Rightarrow> Some (r # rs))"
| "gathered ((p, t) # children) = None"

text \<open>
  One turn of a task of \<open>process_linkage\<close>, the closure of \<open>run_flow\<close>: from where it is
  suspended to its next \<open>await\<close> or to its end, on the shared \<open>results\<close>. A task whose wait
  is not over stays where it is.
\<close>

fun process_linkage ::
  "callback \<Rightarrow> step_task \<Rightarrow> accumulator \<Rightarrow> Getter \<Rightarrow> step_task \<times> accumulator \<times> Getter" where
  "process_linkage cb (Not_started (APILinkage start_api end_api linkage_function)) results s =
     (At_start start_api end_api linkage_function Created, results, s)"
| "process_linkage cb (Not_started (PythonLinkage function)) results s =
     (let s1 = add_events [Transform_call results] s
      in case function results of
           Inl e \<Rightarrow> (Returned (Inl e), results, s1)
         | Inr transformed_results \<Rightarrow>
             (let results' = results ++ transformed_results;
                  s2 = add_events [Callback results'] s1
              in case cb results' of
                   Inl e \<Rightarrow> (Returned (Inl e), results', s2)
                 | Inr u \<Rightarrow> (Returned (Inr ()), results', s2)))"
| "process_linkage cb (At_start start_api end_api linkage_function (Finished (Inl e))) results s =
     (Returned (Inl e), results, s)"
| "process_linkage cb (At_start start_api end_api linkage_function (Finished (Inr start_response)))
       results s =
     (let results1 = results(base_url start_api \<mapsto> start_response)
      in case subscript_output start_response of
           Inl e \<Rightarrow> (Returned (Inl e), results1, s)
         | Inr outs \<Rightarrow>
             (case fan_out end_api linkage_function
                     (map (\<lambda>(key, vals). (key, normalize_values vals)) outs) s of
                (t, s') \<Rightarrow> (t, results1, s')))"
| "process_linkage cb (At_start start_api end_api linkage_function t) results s =
     (At_start start_api end_api linkage_function t, results, s)"
| "process_linkage cb (At_gather end_api linkage_function pending children (Some e)) results s =
     (Returned (Inl e), results, s)"
| "process_linkage cb (At_gather end_api linkage_function pending children None) results s =
     (case gathered children of
        None \<Rightarrow> (At_gather end_api linkage_function pending children None, results, s)
      | Some end_responses \<Rightarrow>
          (case deliver cb (base_url end_api) end_responses results s of
             (Some e, results', s') \<Rightarrow> (Returned (Inl e), results', s')
           | (None, results', s') \<Rightarrow>
               (case fan_out end_api linkage_function pending s' of
                  (t, s'') \<Rightarrow> (t, results', s''))))"
| "process_linkage cb (Returned r) results s = (Returned r, results, s)"

text \<open>
  One run of \<open>run_flow\<close>: the \<open>Getter\<close>, the free permits of its semaphore, the dict
  \<open>results\<close> that the tasks share (\<open>shared\<close>), one task per linkage, and the first exception a task has raised, which is what
  the gather of \<open>run_flow\<close> raises.
\<close>

record pool =
  getter :: Getter
  permits :: nat
  shared :: accumulator
  tasks :: "step_task list"
  raised :: "exn option"

text \<open>
  What the event loop does next: go on with the task of linkage \<open>i\<close>, or with the task
  number \<open>j\<close> that linkage \<open>i\<close> waits for. The order is the event loop's, and depends on when
  the responses arrive: a run is given with its schedule, the list of these turns.
\<close>

datatype action = Continue nat | Resume nat nat

fun first_exception :: "fetch_task \<Rightarrow> exn option \<Rightarrow> exn option" where
  "first_exception t (Some e) = Some e"
| "first_exception (Finished (Inl e)) None = Some e"
| "first_exception t None = None"

text \<open>
  A turn of the task number \<open>j\<close> of a gather, on the tasks of the gather, the first
  exception among them, the \<open>Getter\<close> and the free permits.
\<close>

fun resume_child ::
  "env \<Rightarrow> API \<Rightarrow> nat
     \<Rightarrow> (params \<times> fetch_task) list \<times> exn option \<times> Getter \<times> nat
     \<Rightarrow> (params \<times> fetch_task) list \<times> exn option \<times> Getter \<times> nat" where
  "resume_child env end_api j (children, first, s, free) =
     (if j < length children then
        (case children ! j of
           (end_params, t) \<Rightarrow>
             (case resume_fetch env end_api end_params t s free of
                (t', s', free') \<Rightarrow>
                  (children[j := (end_params, t')], first_exception t' first, s', free')))
      else (children, first, s, free))"

fun first_raised :: "step_task \<Rightarrow> exn option \<Rightarrow> exn option" where
  "first_raised t (Some e) = Some e"
| "first_raised (Returned (Inl e)) None = Some e"
| "first_raised t None = None"

fun act :: "env \<Rightarrow> callback \<Rightarrow> params \<Rightarrow> action \<Rightarrow> pool \<Rightarrow> pool" where
  "act env cb ps (Continue i) P =
     (if i < length (tasks P) then
        (case process_linkage cb (tasks P ! i) (shared P) (getter P) of
           (t, results', s') \<Rightarrow>
             P\<lparr>getter := s', shared := results', tasks := (tasks P)[i := t],
               raised := first_raised t (raised P)\<rparr>)
      else P)"
| "act env cb ps (Resume i j) P =
     (if i < length (tasks P) then
        (case tasks P ! i of
           At_start start_api end_api linkage_function t \<Rightarrow>
             (if j = 0 then
                (case resume_fetch env start_api ps t (getter P) (permits P) of
                   (t', s', free') \<Rightarrow>
                     P\<lparr>getter := s', permits := free',
                       tasks := (tasks P)[i := At_start start_api end_api linkage_function t']\<rparr>)
              else P)
         | At_gather end_api linkage_function pending children first \<Rightarrow>
             (case resume_child env end_api j (children, first, getter P, permits P) of
                (children', first', s', free') \<Rightarrow>
                  P\<lparr>getter := s', permits := free',
                    tasks := (tasks P)[i := At_gather end_api linkage_function pending
                      children' first']\<rparr>)
         | _ \<Rightarrow> P)
      else P)"

text \<open>
  How the run stands: it has raised, or every task has returned, or it is not over yet.
\<close>

fun has_returned :: "step_task \<Rightarrow> bool" where
  "has_returned (Returned r) = True"
| "has_returned t = False"

definition outcome :: "pool \<Rightarrow> (exn + unit) option" where
  "outcome P =
     (case raised P of
        Some e \<Rightarrow> Some (Inl e)
      | None \<Rightarrow> if list_all has_returned (tasks P) then Some (Inr ()) else None)"

text \<open>
  The tasks of the linkages run on \<open>results\<close> under a schedule, each with the same start
  parameters. \<open>run_flow\<close> starts from an empty \<open>results\<close>, with as many permits as the
  \<open>Getter\<close> has workers.
\<close>

definition run_tasks ::
  "env \<Rightarrow> callback \<Rightarrow> linkage list \<Rightarrow> params \<Rightarrow> nat \<Rightarrow> accumulator \<Rightarrow> action list \<Rightarrow> Getter
     \<Rightarrow> pool" where
  "run_tasks env cb ls start_params workers results0 schedule s =
     fold (act env cb start_params) schedule
       \<lparr>getter = s, permits = workers, shared = results0, tasks = map Not_started ls,
        raised = None\<rparr>"

definition run_flow ::
  "env \<Rightarrow> callback \<Rightarrow> APIFlow \<Rightarrow> params \<Rightarrow> nat \<Rightarrow> action list \<Rightarrow> Getter \<Rightarrow> pool" where
  "run_flow env cb flow start_params workers schedule s =
     run_tasks env cb (linkages flow) start_params workers Map.empty schedule s"

text \<open>\<open>Getter(max_retries, workers)\<close>: an empty cache, nothing done yet.\<close>

definition new_Getter :: "int \<Rightarrow> Getter" where
  "new_Getter n = \<lparr>cache = Map.empty, max_retries = n, trace = []\<rparr>"

section \<open>Observing a run\<close>



text \<open>A sequence of calls of \<open>fetch\<close> on one \<open>Getter\<close>: what each gave, and the state after.\<close>

fun fetch_seq ::
  "env \<Rightarrow> (API \<times> params) list \<Rightarrow> Getter \<Rightarrow> (exn + fetch_result) list \<times> Getter" where
  "fetch_seq env [] s = ([], s)"
| "fetch_seq env ((api, ps) # rest) s =
     (case fetch env api ps s of
        (r, s') \<Rightarrow> (case fetch_seq env rest s' of (rs, s'') \<Rightarrow> (r # rs, s'')))"

section \<open>Example inputs\<close>

text \<open>
  Two endpoints in the manner of the demo, a path extractor that reads a top-level key, a
  formatter that appends the parameter values, and a linkage function that passes a string
  on as the parameter \<open>word\<close>.
\<close>

definition ex_start :: API where
  "ex_start =
     \<lparr>base_url = ''https://xkcd.com/{id}/info.0.json'', http_method = ''GET'',
      input_params = [(''id'', URLParam)],
      output_params = [(''title'', ''safe_title''), (''alt'', ''alt'')],
      credentials = [],
      error_handlers = [(404, \<lambda>res. Inr [(''title'', PList [PStr ''No title found''])])],
      data_template = []\<rparr>"

definition ex_end :: API where
  "ex_end =
     \<lparr>base_url = ''https://api.dictionaryapi.dev/{word}'', http_method = ''GET'',
      input_params = [(''word'', URLParam)],
      output_params = [(''definition'', ''definition'')],
      credentials = [],
      error_handlers = [],
      data_template = []\<rparr>"

fun ex_find :: "string \<Rightarrow> pyval \<Rightarrow> exn + pyval list" where
  "ex_find expr (PDict d) =
     (case map_of d expr of
        None \<Rightarrow> Inr []
      | Some (PList vs) \<Rightarrow> Inr vs
      | Some v \<Rightarrow> Inr [v])"
| "ex_find expr v = Inr []"

definition ex_env :: "(nat \<Rightarrow> request \<Rightarrow> exn + response) \<Rightarrow> env" where
  "ex_env network =
     \<lparr>net = network, jsonpath_find = ex_find,
      format = (\<lambda>template ps. Inr (template @ concat (map snd ps)))\<rparr>"

fun ex_linkage :: "outputs \<Rightarrow> exn + params list" where
  "ex_linkage [(k, PStr w)] = Inr [[(''word'', w)]]"
| "ex_linkage [(k, PNone)] = Inr [[(''word'', ''none'')]]"
| "ex_linkage d = Inl (OtherError ''AttributeError'')"

definition ex_callback :: callback where
  "ex_callback results = Inr ()"

text \<open>A transform step that reports a result for the key \<open>b\<close>.\<close>

definition ex_transform :: "accumulator \<Rightarrow> exn + accumulator" where
  "ex_transform results = Inr [''b'' \<mapsto> Result [] []]"

text \<open>A 200 response with a JSON body, a 200 response that is not JSON, and a bare status.\<close>

definition ok_response :: "(string \<times> pyval) list \<Rightarrow> response" where
  "ok_response d = \<lparr>status = 200, json = Inr (PDict d)\<rparr>"

definition not_json_response :: response where
  "not_json_response = \<lparr>status = 200, json = Inl (ClientResponseError 200)\<rparr>"

definition status_response :: "int \<Rightarrow> response" where
  "status_response st = \<lparr>status = st, json = Inl (ClientResponseError st)\<rparr>"

text \<open>A network that answers every request with the same response.\<close>

definition net_always :: "response \<Rightarrow> nat \<Rightarrow> request \<Rightarrow> exn + response" where
  "net_always resp i rq = Inr resp"

text \<open>A network whose first request meets a connection reset and whose later ones succeed.\<close>

definition net_reset_then_ok :: "nat \<Rightarrow> request \<Rightarrow> exn + response" where
  "net_reset_then_ok i rq =
     (if i = 0 then Inl (ClientConnectionError ''Connection reset by peer'')
      else Inr (ok_response []))"

text \<open>
  A network whose first two requests fail with a \<open>ClientResponseError\<close> of status 503 and
  whose later ones are answered with the status 500.
\<close>

definition net_503_twice :: "nat \<Rightarrow> request \<Rightarrow> exn + response" where
  "net_503_twice i rq =
     (if i < 2 then Inl (ClientResponseError 503) else Inr (status_response 500))"

text \<open>An endpoint with the base URL of \<open>ex_start\<close> and nothing else declared.\<close>

definition ex_bare :: API where
  "ex_bare =
     \<lparr>base_url = ''https://xkcd.com/{id}/info.0.json'', http_method = ''POST'',
      input_params = [], output_params = [], credentials = [], error_handlers = [],
      data_template = []\<rparr>"






text \<open>What a finished retry loop leaves of a task: its result, and the permit given back.\<close>

fun after_loop ::
  "API \<Rightarrow> nat \<Rightarrow> (exn + fetch_result option) \<times> Getter \<Rightarrow> fetch_task \<times> Getter \<times> nat" where
  "after_loop api fr (Inl e, s) = (Finished (Inl e), s, Suc fr)"
| "after_loop api fr (Inr (Some r), s) = (Finished (Inr r), s, Suc fr)"
| "after_loop api fr (Inr None, s) =
     (Finished (Inr Empty_result),
      add_events [Log_gave_up (max_retries s) (base_url api)] s, Suc fr)"

text \<open>The durations of the sleeps in a trace, in order.\<close>

fun sleeps :: "event list \<Rightarrow> nat list" where
  "sleeps [] = []"
| "sleeps (Sleep d # t) = d # sleeps t"
| "sleeps (ev # t) = sleeps t"

text \<open>
  An endpoint whose handler for the status 500 raises, as \<open>response.raise_for_status()\<close>
  does.
\<close>

definition ex_raising :: API where
  "ex_raising =
     \<lparr>base_url = ''https://example.org/status'', http_method = ''GET'',
      input_params = [], output_params = [], credentials = [],
      error_handlers = [(500, \<lambda>res. Inl (ClientResponseError (status res)))],
      data_template = []\<rparr>"

text \<open>The state before attempt number \<open>j\<close> when every attempt so far met that handler.\<close>

definition raising_state :: "nat \<Rightarrow> Getter" where
  "raising_state j =
     \<lparr>cache = Map.empty, max_retries = 3,
      trace = Fetch_with_retry ''https://example.org/status'' [] #
        concat (map (\<lambda>i. [Request (build_request ex_raising ''https://example.org/status'' []),
                           Handler_call 500,
                           Log_retrying ''https://example.org/status'' 500, Sleep (2 ^ i)])
                  [0..<j])\<rparr>"


text \<open>
  The calls of \<open>fetch_with_retry\<close> that the tasks of a gather have entered so far: one for
  each task that is no longer waiting to be started.
\<close>

definition started :: "API \<Rightarrow> (params \<times> fetch_task) list \<Rightarrow> event list" where
  "started end_api children =
     map (\<lambda>(end_params, t). Fetch_with_retry (base_url end_api) end_params)
       (filter (\<lambda>(end_params, t). t \<noteq> Created) children)"

section \<open>Facts about the fetcher\<close>

lemma fetch_cached:
  "cache s (cache_key api ps) = Some r \<Longrightarrow> fetch env api ps s = (Inr r, s)"
  by (simp add: fetch_def)

lemma dict_set_fresh: "k \<notin> fst ` set d \<Longrightarrow> dict_set k v d = d @ [(k, v)]"
  by (induction k v d rule: dict_set.induct) auto

lemma extract_outputs_distinct:
  "distinct (map fst fs) \<Longrightarrow> fst ` set fs \<inter> fst ` set outs = {} \<Longrightarrow>
   \<forall>(n, e) \<in> set fs. \<exists>ms. jsonpath_find env e doc = Inr ms \<Longrightarrow>
   extract_outputs env doc fs outs =
     Inr (outs @ map (\<lambda>(n, e). (n, matches_or_none (projr (jsonpath_find env e doc)))) fs)"
proof (induction fs arbitrary: outs)
  case Nil
  then show ?case by simp
next
  case (Cons f fs)
  obtain n e where f: "f = (n, e)" by (cases f)
  from Cons.prems(3) f obtain ms where ms: "jsonpath_find env e doc = Inr ms" by auto
  have fresh: "n \<notin> fst ` set outs" using Cons.prems(2) f by auto
  have d: "distinct (map fst fs)" using Cons.prems(1) by simp
  have disj: "fst ` set fs \<inter> fst ` set (outs @ [(n, matches_or_none ms)]) = {}"
    using Cons.prems(1,2) f by auto
  have rest: "\<forall>(n, e) \<in> set fs. \<exists>ms. jsonpath_find env e doc = Inr ms"
    using Cons.prems(3) by simp
  show ?case
    using Cons.IH[OF d disj rest] by (simp add: f ms dict_set_fresh[OF fresh])
qed

lemma fetch_status_handler:
  assumes "cache s (cache_key api ps) = None"
    and "format env (base_url api) (url_parameters api ps) = Inr url"
    and "net env (n_requests (trace s)) (build_request api url (data_parameters api ps)) = Inr resp"
    and "status resp \<noteq> 200"
    and "map_of (error_handlers api) (status resp) = Some h" and "h resp = Inr out"
  shows "fetch env api ps s = (Inr (Result ps out),
     s\<lparr>cache := (cache s)(cache_key api ps \<mapsto> Result ps out),
       trace := trace s @ [Request (build_request api url (data_parameters api ps)),
                           Handler_call (status resp)]\<rparr>)"
  using assms by (simp add: fetch_def handle_status_def add_events_def)

lemma fetch_status_unhandled:
  assumes "cache s (cache_key api ps) = None"
    and "format env (base_url api) (url_parameters api ps) = Inr url"
    and "net env (n_requests (trace s)) (build_request api url (data_parameters api ps)) = Inr resp"
    and "status resp \<noteq> 200"
    and "map_of (error_handlers api) (status resp) = None"
  shows "fetch env api ps s = (Inr (Result ps []),
     s\<lparr>cache := (cache s)(cache_key api ps \<mapsto> Result ps []),
       trace := trace s @ [Request (build_request api url (data_parameters api ps)),
                           Log_status url (status resp)]\<rparr>)"
  using assms by (simp add: fetch_def handle_status_def add_events_def)

lemma fetch_stores:
  "fetch env api ps s = (Inr r, s') \<Longrightarrow> cache s' (cache_key api ps) = Some r"
  by (auto simp: fetch_def Let_def split: option.splits sum.splits if_splits prod.splits)


lemma fetch_raise_cache:
  "fetch env api ps s = (Inl e, s') \<Longrightarrow> cache s' = cache s"
  by (auto simp: fetch_def Let_def handle_status_def add_events_def
       split: option.splits sum.splits if_splits prod.splits)

lemma fetch_max_retries:
  "max_retries (snd (fetch env api ps s)) = max_retries s"
  by (auto simp: fetch_def Let_def handle_status_def add_events_def
       split: option.splits sum.splits if_splits prod.splits)



lemma fetch_seq_same_key:
  "cache s k = Some r \<Longrightarrow> \<forall>(api, ps) \<in> set calls. cache_key api ps = k \<Longrightarrow>
   fetch_seq env calls s = (replicate (length calls) (Inr r), s)"
proof (induction calls)
  case Nil
  then show ?case by simp
next
  case (Cons c calls)
  obtain api ps where c: "c = (api, ps)" by (cases c)
  have k: "cache_key api ps = k" using Cons.prems(2) c by simp
  have "fetch env api ps s = (Inr r, s)"
    using Cons.prems(1) k by (simp add: fetch_cached)
  moreover have "fetch_seq env calls s = (replicate (length calls) (Inr r), s)"
    using Cons by simp
  ultimately show ?case by (simp add: c)
qed

lemma fetch_request_raises:
  assumes "cache s (cache_key api ps) = None"
    and "format env (base_url api) (url_parameters api ps) = Inr url"
    and "net env (n_requests (trace s)) (build_request api url (data_parameters api ps)) = Inl e"
  shows "fetch env api ps s =
     (Inl e, s\<lparr>trace := trace s @ [Request (build_request api url (data_parameters api ps))]\<rparr>)"
  using assms by (simp add: fetch_def add_events_def)



lemma map_of_map_distinct:
  "distinct (map fst fs) \<Longrightarrow> (n, e) \<in> set fs \<Longrightarrow>
   map_of (map (\<lambda>(n, e). (n, g e)) fs) n = Some (g e)"
  by (induction fs) (auto simp: rev_image_eqI)

lemma fetch_with_retry_first:
  assumes "0 < max_retries s"
    and "fetch env api ps (add_events [Fetch_with_retry (base_url api) ps] s) = (Inr r, s')"
  shows "fetch_with_retry env api ps s = (Inr r, s')"
proof -
  have "[0..<nat (max_retries s)] = 0 # [1..<nat (max_retries s)]"
    using assms(1) by (simp add: upt_conv_Cons)
  then show ?thesis
    using assms(2) by (simp add: fetch_with_retry_def)
qed

lemma turn_Finished: "turn env api ps (Finished r, s, fr) = (Finished r, s, fr)"
  by (simp add: turn_def)

lemma turns_Finished: "(turn env api ps ^^ k) (Finished r, s, fr) = (Finished r, s, fr)"
  by (induction k) (simp_all add: turn_Finished)

lemma turns_unique:
  assumes a: "(turn env api ps ^^ m) c = (Finished r, s, fr)"
    and b: "(turn env api ps ^^ k) c = (Finished r', s', fr')"
  shows "r' = r \<and> s' = s \<and> fr' = fr"
proof (cases "k \<le> m")
  case True
  then have "(turn env api ps ^^ m) c = (turn env api ps ^^ (m - k)) ((turn env api ps ^^ k) c)"
    by (metis add.commute funpow_add le_add_diff_inverse o_apply)
  with a b show ?thesis by (simp add: turns_Finished)
next
  case False
  then have "(turn env api ps ^^ k) c = (turn env api ps ^^ (k - m)) ((turn env api ps ^^ m) c)"
    by (metis add.commute funpow_add le_add_diff_inverse nat_le_linear o_apply)
  with a b show ?thesis by (simp add: turns_Finished)
qed

lemma attempt_alone:
  assumes lt: "retry < nat (max_retries s)"
  shows "\<exists>m. (turn env api ps ^^ m) (begin_attempt env api ps retry s fr) =
     (case fetch env api ps s of
        (Inr r, s') \<Rightarrow> (Finished (Inr r), s', Suc fr)
      | (Inl e, s') \<Rightarrow> on_exception api retry e s' fr)"
proof (cases "cache s (cache_key api ps)")
  case (Some c)
  show ?thesis
    by (rule exI[of _ 0]) (simp add: begin_attempt_def fetch_def Some lt)
next
  case None
  show ?thesis
  proof (cases "format env (base_url api) (url_parameters api ps)")
    case (Inl e)
    show ?thesis
      by (rule exI[of _ 0]) (simp add: begin_attempt_def fetch_def None Inl lt)
  next
    case (Inr url)
    let ?rq = "build_request api url (data_parameters api ps)"
    let ?s1 = "add_events [Request ?rq] s"
    have b: "begin_attempt env api ps retry s fr =
        (Await_request retry url ?rq (n_requests (trace s)), ?s1, fr)"
      by (simp add: begin_attempt_def None Inr lt Let_def)
    show ?thesis
    proof (cases "net env (n_requests (trace s)) ?rq")
      case (Inl e)
      show ?thesis
        by (rule exI[of _ 1]) (simp add: b turn_def fetch_def Let_def None Inr Inl)
    next
      case resp: (Inr resp)
      show ?thesis
      proof (cases "status resp = 200")
        case True
        show ?thesis
        proof (cases "json resp")
          case (Inl e)
          show ?thesis
            by (rule exI[of _ 2])
               (simp add: numeral_2_eq_2 b turn_def fetch_def Let_def None Inr resp True Inl)
        next
          case doc: (Inr doc)
          show ?thesis
          proof (cases "extract_outputs env doc (output_params api) []")
            case (Inl e)
            show ?thesis
              by (rule exI[of _ 2])
                 (simp add: numeral_2_eq_2 b turn_def fetch_def Let_def None Inr resp True doc Inl)
          next
            case outs: (Inr outs)
            show ?thesis
              by (rule exI[of _ 3])
                 (simp add: numeral_3_eq_3 b turn_def fetch_def Let_def None Inr resp True doc outs)
          qed
        qed
      next
        case False
        obtain x s2 where h: "handle_status api url resp ?s1 = (x, s2)"
          by (cases "handle_status api url resp ?s1")
        show ?thesis
        proof (cases x)
          case (Inl e)
          show ?thesis
            by (rule exI[of _ 1]) (simp add: b turn_def fetch_def Let_def None Inr resp False h Inl)
        next
          case outs: (Inr outs)
          show ?thesis
            by (rule exI[of _ 2])
               (simp add: numeral_2_eq_2 b turn_def fetch_def Let_def None Inr resp False h outs)
        qed
      qed
    qed
  qed
qed

lemma loop_alone:
  "nat (max_retries s) = n \<Longrightarrow> retry \<le> n \<Longrightarrow>
   \<exists>m. (turn env api ps ^^ m) (begin_attempt env api ps retry s fr) =
        after_loop api fr (retry_loop env api ps [retry..<n] s)"
proof (induction "n - retry" arbitrary: retry s)
  case 0
  then have "retry = n" by simp
  then show ?case
    using "0.prems"(1)
    by (intro exI[of _ 0]) (simp add: begin_attempt_def)
next
  case (Suc d)
  then have lt: "retry < n" by simp
  then have lt': "retry < nat (max_retries s)" using Suc.prems(1) by simp
  have upt: "[retry..<n] = retry # [Suc retry..<n]"
    using lt by (simp add: upt_conv_Cons)
  obtain x s' where f: "fetch env api ps s = (x, s')"
    by (cases "fetch env api ps s")
  from attempt_alone[OF lt', of env api ps fr] obtain m1 where
    m1: "(turn env api ps ^^ m1) (begin_attempt env api ps retry s fr) =
      (case x of Inr r \<Rightarrow> (Finished (Inr r), s', Suc fr)
               | Inl e \<Rightarrow> on_exception api retry e s' fr)"
    by (auto simp: f)
  show ?case
  proof (cases x)
    case (Inr r)
    show ?thesis
      by (rule exI[of _ m1]) (simp add: m1 Inr upt f)
  next
    case (Inl e)
    show ?thesis
    proof (cases "\<exists>c. e = ClientResponseError c")
      case False
      then show ?thesis
        by (intro exI[of _ m1]) (cases e; simp add: m1 Inl upt f on_exception_def)
    next
      case True
      then obtain c where c: "e = ClientResponseError c" by blast
      let ?s2 = "add_events [Log_retrying (base_url api) c, Sleep (2 ^ retry)] s'"
      have ms: "max_retries s' = max_retries s"
        using fetch_max_retries[of env api ps s] f by simp
      have n2: "nat (max_retries ?s2) = n"
        using Suc.prems(1) ms by (simp add: add_events_def)
      have d: "d = n - Suc retry" using Suc.hyps(2) by simp
      from Suc.hyps(1)[OF d n2] lt obtain m2 where
        m2: "(turn env api ps ^^ m2) (begin_attempt env api ps (Suc retry) ?s2 fr) =
          after_loop api fr (retry_loop env api ps [Suc retry..<n] ?s2)"
        by auto
      have step: "turn env api ps ((turn env api ps ^^ m1) (begin_attempt env api ps retry s fr)) =
          begin_attempt env api ps (Suc retry) ?s2 fr"
        by (simp add: m1 Inl c on_exception_def turn_def)
      have "(turn env api ps ^^ (m2 + Suc m1)) (begin_attempt env api ps retry s fr) =
          (turn env api ps ^^ m2)
            ((turn env api ps ^^ Suc m1) (begin_attempt env api ps retry s fr))"
        by (simp only: funpow_add o_apply)
      also have "(turn env api ps ^^ Suc m1) (begin_attempt env api ps retry s fr) =
          begin_attempt env api ps (Suc retry) ?s2 fr"
        using step by simp
      finally have "(turn env api ps ^^ (m2 + Suc m1)) (begin_attempt env api ps retry s fr) =
          after_loop api fr (retry_loop env api ps [Suc retry..<n] ?s2)"
        using m2 by simp
      moreover have "retry_loop env api ps [retry..<n] s =
          retry_loop env api ps [Suc retry..<n] ?s2"
        by (simp add: upt f Inl c)
      ultimately show ?thesis by metis
    qed
  qed
qed

lemma fetch_with_retry_alone:
  assumes "fetch_with_retry env api ps s = (r, s')"
  shows "\<exists>m. (turn env api ps ^^ m) (Created, s, Suc fr) = (Finished r, s', Suc fr)"
proof -
  let ?s0 = "add_events [Fetch_with_retry (base_url api) ps] s"
  have first: "turn env api ps (Created, s, Suc fr) = begin_attempt env api ps 0 ?s0 fr"
    by (simp add: turn_def Let_def)
  have n: "nat (max_retries ?s0) = nat (max_retries s)"
    by (simp add: add_events_def)
  from loop_alone[OF n, of 0 env api ps fr] obtain m where
    m: "(turn env api ps ^^ m) (begin_attempt env api ps 0 ?s0 fr) =
      after_loop api fr (retry_loop env api ps [0..<nat (max_retries s)] ?s0)"
    by auto
  obtain x s1 where l: "retry_loop env api ps [0..<nat (max_retries s)] ?s0 = (x, s1)"
    by (cases "retry_loop env api ps [0..<nat (max_retries s)] ?s0")
  have "after_loop api fr (retry_loop env api ps [0..<nat (max_retries s)] ?s0) =
      (Finished r, s', Suc fr)"
  proof (cases x)
    case (Inl e)
    then show ?thesis using assms l by (simp add: fetch_with_retry_def)
  next
    case (Inr opt)
    then show ?thesis using assms l by (cases opt) (auto simp: fetch_with_retry_def)
  qed
  with m have "(turn env api ps ^^ Suc m) (Created, s, Suc fr) = (Finished r, s', Suc fr)"
    by (simp add: funpow_swap1 first)
  then show ?thesis by blast
qed

section \<open>Facts about runs of a single task\<close>

lemma pool_same:
  "tasks P = ts \<Longrightarrow> P\<lparr>getter := getter P, permits := permits P, tasks := ts\<rparr> = P"
  by (cases P) simp

lemma first_raised_waiting:
  "first_raised (At_start a b f t) r = r"
  "first_raised (At_gather b f pending children first) r = r"
  "first_raised (Not_started l) r = r"
  "first_raised (Returned (Inr u)) r = r"
  by (cases r; simp)+

lemma act_terminal:
  assumes "tasks P = [Returned r]" and "raised P = first_raised (Returned r) (raised P)"
  shows "act env cb ps a P = P"
proof (cases a)
  case (Continue i)
  show ?thesis
  proof (cases i)
    case 0
    with assms Continue show ?thesis by (cases P) simp
  next
    case (Suc i')
    with assms Continue show ?thesis by simp
  qed
next
  case (Resume i j)
  with assms show ?thesis by (cases i) simp_all
qed

lemma run_terminal:
  assumes "tasks P = [Returned r]" and "raised P = first_raised (Returned r) (raised P)"
  shows "fold (act env cb ps) sched P = P"
  by (induction sched) (simp_all add: act_terminal[OF assms])

lemma not_started_phase:
  assumes "tasks P = [Not_started l]"
  shows "fold (act env cb ps) sched P = P \<or>
     (\<exists>post. fold (act env cb ps) sched P =
        fold (act env cb ps) post (act env cb ps (Continue 0) P))"
proof (induction sched)
  case Nil
  show ?case by simp
next
  case (Cons a sched)
  show ?case
  proof (cases "a = Continue 0")
    case True
    then show ?thesis by auto
  next
    case False
    have "act env cb ps a P = P"
    proof (cases a)
      case (Continue i)
      with False assms show ?thesis by (cases i) simp_all
    next
      case (Resume i j)
      with assms show ?thesis by (cases i) simp_all
    qed
    with Cons show ?thesis by simp
  qed
qed

lemma not_finished_start:
  "\<forall>r. t \<noteq> Finished r \<Longrightarrow>
   process_linkage cb (At_start a b f t) res s = (At_start a b f t, res, s)"
  by (cases t) simp_all

lemma start_phase:
  "tasks P = [At_start a b f t] \<Longrightarrow>
   (\<exists>k t' s' fr'. (turn env a ps ^^ k) (t, getter P, permits P) = (t', s', fr') \<and>
      fold (act env cb ps) sched P =
        P\<lparr>getter := s', permits := fr', tasks := [At_start a b f t']\<rparr>) \<or>
   (\<exists>k r s' fr' post. (turn env a ps ^^ k) (t, getter P, permits P) = (Finished r, s', fr') \<and>
      fold (act env cb ps) sched P =
        fold (act env cb ps) post
          (act env cb ps (Continue 0)
             (P\<lparr>getter := s', permits := fr', tasks := [At_start a b f (Finished r)]\<rparr>)))"
proof (induction sched arbitrary: P t)
  case Nil
  have "(turn env a ps ^^ 0) (t, getter P, permits P) = (t, getter P, permits P)" by simp
  moreover have "fold (act env cb ps) [] P =
      P\<lparr>getter := getter P, permits := permits P, tasks := [At_start a b f t]\<rparr>"
    using Nil by (simp add: pool_same)
  ultimately show ?case by blast
next
  case (Cons x sched)
  note shape = Cons.prems
  show ?case
  proof (cases "x = Resume 0 0")
    case True
    obtain t1 s1 fr1 where t1: "turn env a ps (t, getter P, permits P) = (t1, s1, fr1)"
      by (cases "turn env a ps (t, getter P, permits P)")
    let ?P1 = "P\<lparr>getter := s1, permits := fr1, tasks := [At_start a b f t1]\<rparr>"
    have a1: "act env cb ps x P = ?P1"
      using True shape t1 by (simp add: turn_def)
    have shape1: "tasks ?P1 = [At_start a b f t1]" by simp
    from Cons.IH[OF shape1] show ?thesis
    proof
      assume "\<exists>k t' s' fr'. (turn env a ps ^^ k) (t1, getter ?P1, permits ?P1) = (t', s', fr') \<and>
          fold (act env cb ps) sched ?P1 =
            ?P1\<lparr>getter := s', permits := fr', tasks := [At_start a b f t']\<rparr>"
      then obtain k t' s' fr' where
        k: "(turn env a ps ^^ k) (t1, s1, fr1) = (t', s', fr')"
        and f: "fold (act env cb ps) sched ?P1 =
            P\<lparr>getter := s', permits := fr', tasks := [At_start a b f t']\<rparr>"
        by auto
      have "(turn env a ps ^^ Suc k) (t, getter P, permits P) = (t', s', fr')"
        using k t1 by (simp add: funpow_swap1)
      moreover have "fold (act env cb ps) (x # sched) P =
          P\<lparr>getter := s', permits := fr', tasks := [At_start a b f t']\<rparr>"
        using f a1 by simp
      ultimately show ?thesis by blast
    next
      assume "\<exists>k r s' fr' post.
          (turn env a ps ^^ k) (t1, getter ?P1, permits ?P1) = (Finished r, s', fr') \<and>
          fold (act env cb ps) sched ?P1 =
            fold (act env cb ps) post
              (act env cb ps (Continue 0)
                 (?P1\<lparr>getter := s', permits := fr', tasks := [At_start a b f (Finished r)]\<rparr>))"
      then obtain k r s' fr' post where
        k: "(turn env a ps ^^ k) (t1, s1, fr1) = (Finished r, s', fr')"
        and f: "fold (act env cb ps) sched ?P1 =
            fold (act env cb ps) post
              (act env cb ps (Continue 0)
                 (P\<lparr>getter := s', permits := fr', tasks := [At_start a b f (Finished r)]\<rparr>))"
        by auto
      have "(turn env a ps ^^ Suc k) (t, getter P, permits P) = (Finished r, s', fr')"
        using k t1 by (simp add: funpow_swap1)
      moreover have "fold (act env cb ps) (x # sched) P =
          fold (act env cb ps) post
              (act env cb ps (Continue 0)
                 (P\<lparr>getter := s', permits := fr', tasks := [At_start a b f (Finished r)]\<rparr>))"
        using f a1 by simp
      ultimately show ?thesis by blast
    qed
  next
    case False
    show ?thesis
    proof (cases "x = Continue 0 \<and> (\<exists>r. t = Finished r)")
      case True
      then obtain r where r: "t = Finished r" and x: "x = Continue 0" by blast
      have "(turn env a ps ^^ 0) (t, getter P, permits P) = (Finished r, getter P, permits P)"
        using r by simp
      moreover have "fold (act env cb ps) (x # sched) P =
          fold (act env cb ps) sched
            (act env cb ps (Continue 0)
               (P\<lparr>getter := getter P, permits := permits P,
                  tasks := [At_start a b f (Finished r)]\<rparr>))"
        using shape r x by (simp add: pool_same)
      ultimately show ?thesis by blast
    next
      case noc: False
      have same: "act env cb ps x P = P"
      proof (cases x)
        case (Continue i)
        show ?thesis
        proof (cases i)
          case 0
          with noc Continue have "\<forall>r. t \<noteq> Finished r" by simp
          from not_finished_start[OF this] shape Continue 0 show ?thesis
            by (cases P) (simp add: first_raised_waiting)
        next
          case (Suc i')
          with Continue shape show ?thesis by simp
        qed
      next
        case (Resume i j)
        with False shape show ?thesis by (cases i; cases j) simp_all
      qed
      from Cons.IH[OF shape] same show ?thesis by simp
    qed
  qed
qed


lemma not_gathered:
  "gathered children = None \<Longrightarrow>
   process_linkage cb (At_gather b f pending children None) res s =
     (At_gather b f pending children None, res, s)"
  by simp

lemma gather_phase:
  "tasks P = [At_gather b f pending children first] \<Longrightarrow>
   (\<exists>js children' first' s' fr'.
      fold (resume_child env b) js (children, first, getter P, permits P) =
        (children', first', s', fr') \<and>
      fold (act env cb ps) sched P =
        P\<lparr>getter := s', permits := fr', tasks := [At_gather b f pending children' first']\<rparr>) \<or>
   (\<exists>js children' first' s' fr' post.
      fold (resume_child env b) js (children, first, getter P, permits P) =
        (children', first', s', fr') \<and>
      (first' \<noteq> None \<or> gathered children' \<noteq> None) \<and>
      fold (act env cb ps) sched P =
        fold (act env cb ps) post
          (act env cb ps (Continue 0)
             (P\<lparr>getter := s', permits := fr',
                tasks := [At_gather b f pending children' first']\<rparr>)))"
proof (induction sched arbitrary: P children first)
  case Nil
  have "fold (resume_child env b) [] (children, first, getter P, permits P) =
      (children, first, getter P, permits P)" by simp
  moreover have "fold (act env cb ps) [] P =
      P\<lparr>getter := getter P, permits := permits P,
        tasks := [At_gather b f pending children first]\<rparr>"
    using Nil by (simp add: pool_same)
  ultimately show ?case by blast
next
  case (Cons x sched)
  note shape = Cons.prems
  show ?case
  proof (cases "\<exists>j. x = Resume 0 j")
    case True
    then obtain j where x: "x = Resume 0 j" by blast
    obtain c1 f1 s1 fr1 where
      c1: "resume_child env b j (children, first, getter P, permits P) = (c1, f1, s1, fr1)"
      by (cases "resume_child env b j (children, first, getter P, permits P)")
    let ?P1 = "P\<lparr>getter := s1, permits := fr1, tasks := [At_gather b f pending c1 f1]\<rparr>"
    have a1: "act env cb ps x P = ?P1"
      using x shape c1 by simp
    have shape1: "tasks ?P1 = [At_gather b f pending c1 f1]" by simp
    from Cons.IH[OF shape1] show ?thesis
    proof
      assume "\<exists>js children' first' s' fr'.
          fold (resume_child env b) js (c1, f1, getter ?P1, permits ?P1) =
            (children', first', s', fr') \<and>
          fold (act env cb ps) sched ?P1 =
            ?P1\<lparr>getter := s', permits := fr',
              tasks := [At_gather b f pending children' first']\<rparr>"
      then obtain js children' first' s' fr' where
        k: "fold (resume_child env b) js (c1, f1, s1, fr1) = (children', first', s', fr')"
        and f: "fold (act env cb ps) sched ?P1 =
            P\<lparr>getter := s', permits := fr', tasks := [At_gather b f pending children' first']\<rparr>"
        by auto
      have "fold (resume_child env b) (j # js) (children, first, getter P, permits P) =
          (children', first', s', fr')"
        using k c1 by simp
      moreover have "fold (act env cb ps) (x # sched) P =
          P\<lparr>getter := s', permits := fr', tasks := [At_gather b f pending children' first']\<rparr>"
        using f a1 by simp
      ultimately show ?thesis by blast
    next
      assume "\<exists>js children' first' s' fr' post.
          fold (resume_child env b) js (c1, f1, getter ?P1, permits ?P1) =
            (children', first', s', fr') \<and>
          (first' \<noteq> None \<or> gathered children' \<noteq> None) \<and>
          fold (act env cb ps) sched ?P1 =
            fold (act env cb ps) post
              (act env cb ps (Continue 0)
                 (?P1\<lparr>getter := s', permits := fr',
                    tasks := [At_gather b f pending children' first']\<rparr>))"
      then obtain js children' first' s' fr' post where
        k: "fold (resume_child env b) js (c1, f1, s1, fr1) = (children', first', s', fr')"
        and g: "first' \<noteq> None \<or> gathered children' \<noteq> None"
        and f: "fold (act env cb ps) sched ?P1 =
            fold (act env cb ps) post
              (act env cb ps (Continue 0)
                 (P\<lparr>getter := s', permits := fr',
                    tasks := [At_gather b f pending children' first']\<rparr>))"
        by auto
      have "fold (resume_child env b) (j # js) (children, first, getter P, permits P) =
          (children', first', s', fr')"
        using k c1 by simp
      moreover have "fold (act env cb ps) (x # sched) P =
          fold (act env cb ps) post
              (act env cb ps (Continue 0)
                 (P\<lparr>getter := s', permits := fr',
                    tasks := [At_gather b f pending children' first']\<rparr>))"
        using f a1 by simp
      ultimately show ?thesis using g by blast
    qed
  next
    case False
    show ?thesis
    proof (cases "x = Continue 0 \<and> (first \<noteq> None \<or> gathered children \<noteq> None)")
      case True
      have "fold (resume_child env b) [] (children, first, getter P, permits P) =
          (children, first, getter P, permits P)" by simp
      moreover have "fold (act env cb ps) (x # sched) P =
          fold (act env cb ps) sched
            (act env cb ps (Continue 0)
               (P\<lparr>getter := getter P, permits := permits P,
                  tasks := [At_gather b f pending children first]\<rparr>))"
        using shape True by (simp add: pool_same)
      ultimately show ?thesis using True by blast
    next
      case noc: False
      have same: "act env cb ps x P = P"
      proof (cases x)
        case (Continue i)
        show ?thesis
        proof (cases i)
          case 0
          with noc Continue have "first = None" "gathered children = None" by simp_all
          with shape Continue 0 show ?thesis
            by (cases P) (simp add: first_raised_waiting)
        next
          case (Suc i')
          with Continue shape show ?thesis by simp
        qed
      next
        case (Resume i j)
        with False shape show ?thesis by (cases i) simp_all
      qed
      from Cons.IH[OF shape] same show ?thesis by simp
    qed
  qed
qed

lemma first_exception_Some:
  "first_exception t None = Some e \<longleftrightarrow> t = Finished (Inl e)"
proof (cases t)
  case (Finished x)
  then show ?thesis by (cases x) auto
qed auto

lemma first_exception_turn:
  assumes "resume_fetch env b p t s fr = (t1, s1, fr1)"
  shows "first_exception t1 (first_exception t None) = first_exception t1 None"
proof (cases "first_exception t None")
  case None
  then show ?thesis by simp
next
  case (Some e)
  then have "t = Finished (Inl e)" by (simp add: first_exception_Some)
  with assms have "t1 = Finished (Inl e)" by simp
  with Some show ?thesis by simp
qed

lemma single_child:
  "fold (resume_child env b) js ([(p, t)], first_exception t None, s, fr) =
     (children', first', s', fr') \<Longrightarrow>
   \<exists>k t'. (turn env b p ^^ k) (t, s, fr) = (t', s', fr') \<and>
      children' = [(p, t')] \<and> first' = first_exception t' None"
proof (induction js arbitrary: t s fr)
  case Nil
  then have "(turn env b p ^^ 0) (t, s, fr) = (t, s', fr') \<and> children' = [(p, t)] \<and>
      first' = first_exception t None" by simp
  then show ?case by blast
next
  case (Cons j js)
  show ?case
  proof (cases j)
    case 0
    obtain t1 s1 fr1 where t1: "resume_fetch env b p t s fr = (t1, s1, fr1)"
      by (cases "resume_fetch env b p t s fr")
    have "resume_child env b j ([(p, t)], first_exception t None, s, fr) =
        ([(p, t1)], first_exception t1 None, s1, fr1)"
      using 0 t1 first_exception_turn[OF t1] by simp
    with Cons.prems have
      "fold (resume_child env b) js ([(p, t1)], first_exception t1 None, s1, fr1) =
         (children', first', s', fr')" by simp
    from Cons.IH[OF this] obtain k t' where
      k: "(turn env b p ^^ k) (t1, s1, fr1) = (t', s', fr')"
      and c: "children' = [(p, t')]" "first' = first_exception t' None"
      by blast
    have "(turn env b p ^^ Suc k) (t, s, fr) = (t', s', fr')"
      using k t1 by (simp add: funpow_swap1 turn_def)
    with c show ?thesis by blast
  next
    case (Suc j')
    then have "resume_child env b j ([(p, t)], first_exception t None, s, fr) =
        ([(p, t)], first_exception t None, s, fr)" by simp
    with Cons.prems have
      "fold (resume_child env b) js ([(p, t)], first_exception t None, s, fr) =
         (children', first', s', fr')" by simp
    from Cons.IH[OF this] show ?thesis .
  qed
qed

lemma waiting_outcome:
  "raised P = None \<Longrightarrow> tasks P = [t] \<Longrightarrow> \<not> has_returned t \<Longrightarrow> outcome P = None"
  by (simp add: outcome_def)

lemma done_is_Finished:
  "first_exception t None \<noteq> None \<or> gathered [(p, t)] \<noteq> None \<Longrightarrow> \<exists>r. t = Finished r"
  by (cases t) auto

lemma lone_start_done:
  assumes shape: "tasks P = [At_start a b f Created]"
    and perm: "permits P = Suc fr"
    and nr: "raised P = None"
    and fin: "outcome (fold (act env cb ps) sched P) \<noteq> None"
    and fw: "fetch_with_retry env a ps (getter P) = (r, s')"
  shows "\<exists>post. fold (act env cb ps) sched P =
     fold (act env cb ps) post
       (act env cb ps (Continue 0)
          (P\<lparr>getter := s', tasks := [At_start a b f (Finished r)]\<rparr>))"
proof -
  from start_phase[OF shape, of env ps cb sched] show ?thesis
  proof
    assume "\<exists>k t' s' fr'. (turn env a ps ^^ k) (Created, getter P, permits P) = (t', s', fr') \<and>
        fold (act env cb ps) sched P =
          P\<lparr>getter := s', permits := fr', tasks := [At_start a b f t']\<rparr>"
    then obtain t' s0 fr0 where
      "fold (act env cb ps) sched P = P\<lparr>getter := s0, permits := fr0, tasks := [At_start a b f t']\<rparr>"
      by blast
    then have "outcome (fold (act env cb ps) sched P) = None"
      using nr by (simp add: outcome_def)
    with fin show ?thesis by simp
  next
    assume "\<exists>k r s' fr' post.
        (turn env a ps ^^ k) (Created, getter P, permits P) = (Finished r, s', fr') \<and>
        fold (act env cb ps) sched P =
          fold (act env cb ps) post
            (act env cb ps (Continue 0)
               (P\<lparr>getter := s', permits := fr', tasks := [At_start a b f (Finished r)]\<rparr>))"
    then obtain k r0 s0 fr0 post where
      k: "(turn env a ps ^^ k) (Created, getter P, Suc fr) = (Finished r0, s0, fr0)"
      and f: "fold (act env cb ps) sched P =
          fold (act env cb ps) post
            (act env cb ps (Continue 0)
               (P\<lparr>getter := s0, permits := fr0, tasks := [At_start a b f (Finished r0)]\<rparr>))"
      using perm by auto
    from fetch_with_retry_alone[OF fw, of fr] obtain m where
      m: "(turn env a ps ^^ m) (Created, getter P, Suc fr) = (Finished r, s', Suc fr)"
      by blast
    from turns_unique[OF m k] have eq: "r0 = r" "s0 = s'" "fr0 = Suc fr" by simp_all
    have "P\<lparr>getter := s0, permits := fr0, tasks := [At_start a b f (Finished r0)]\<rparr> =
        P\<lparr>getter := s', tasks := [At_start a b f (Finished r)]\<rparr>"
      using eq perm by (cases P) simp
    with f show ?thesis by auto
  qed
qed

lemma gather_done:
  assumes shape: "tasks P = [At_gather b f pending children first]"
    and nr: "raised P = None"
    and fin: "outcome (fold (act env cb ps) sched P) \<noteq> None"
  shows "\<exists>js children' first' s' fr' post.
      fold (resume_child env b) js (children, first, getter P, permits P) =
        (children', first', s', fr') \<and>
      (first' \<noteq> None \<or> gathered children' \<noteq> None) \<and>
      fold (act env cb ps) sched P =
        fold (act env cb ps) post
          (act env cb ps (Continue 0)
             (P\<lparr>getter := s', permits := fr',
                tasks := [At_gather b f pending children' first']\<rparr>))"
proof -
  from gather_phase[OF shape, of env cb ps sched] show ?thesis
  proof
    assume "\<exists>js children' first' s' fr'.
      fold (resume_child env b) js (children, first, getter P, permits P) =
        (children', first', s', fr') \<and>
      fold (act env cb ps) sched P =
        P\<lparr>getter := s', permits := fr', tasks := [At_gather b f pending children' first']\<rparr>"
    then obtain children' first' s0 fr0 where
      "fold (act env cb ps) sched P =
        P\<lparr>getter := s0, permits := fr0, tasks := [At_gather b f pending children' first']\<rparr>"
      by blast
    then have "outcome (fold (act env cb ps) sched P) = None"
      using nr by (simp add: outcome_def)
    with fin show ?thesis by simp
  qed blast
qed

lemma lone_gather_done:
  assumes shape: "tasks P = [At_gather b f pending [(p, Created)] None]"
    and perm: "permits P = Suc fr"
    and nr: "raised P = None"
    and fin: "outcome (fold (act env cb ps) sched P) \<noteq> None"
    and fw: "fetch_with_retry env b p (getter P) = (r, s')"
  shows "\<exists>post. fold (act env cb ps) sched P =
     fold (act env cb ps) post
       (act env cb ps (Continue 0)
          (P\<lparr>getter := s',
             tasks := [At_gather b f pending [(p, Finished r)]
                         (first_exception (Finished r) None)]\<rparr>))"
proof -
  from gather_done[OF shape nr fin] obtain js children' first' s0 fr0 post where
    j: "fold (resume_child env b) js ([(p, Created)], None, getter P, permits P) =
        (children', first', s0, fr0)"
    and g: "first' \<noteq> None \<or> gathered children' \<noteq> None"
    and f: "fold (act env cb ps) sched P =
        fold (act env cb ps) post
          (act env cb ps (Continue 0)
             (P\<lparr>getter := s0, permits := fr0,
                tasks := [At_gather b f pending children' first']\<rparr>))"
    by blast
  have "fold (resume_child env b) js
      ([(p, Created)], first_exception Created None, getter P, Suc fr) =
        (children', first', s0, fr0)"
    using j perm by simp
  from single_child[OF this] obtain k t' where
    k: "(turn env b p ^^ k) (Created, getter P, Suc fr) = (t', s0, fr0)"
    and c: "children' = [(p, t')]" "first' = first_exception t' None"
    by blast
  have "first_exception t' None \<noteq> None \<or> gathered [(p, t')] \<noteq> None"
    using g c by simp
  from done_is_Finished[OF this] obtain r0 where t': "t' = Finished r0" by blast
  from fetch_with_retry_alone[OF fw, of fr] obtain m where
    m: "(turn env b p ^^ m) (Created, getter P, Suc fr) = (Finished r, s', Suc fr)"
    by blast
  from turns_unique[OF m k[unfolded t']] have eq: "r0 = r" "s0 = s'" "fr0 = Suc fr" by simp_all
  have "P\<lparr>getter := s0, permits := fr0, tasks := [At_gather b f pending children' first']\<rparr> =
      P\<lparr>getter := s',
        tasks := [At_gather b f pending [(p, Finished r)] (first_exception (Finished r) None)]\<rparr>"
    using eq perm c t' by (cases P) simp
  with f show ?thesis by auto
qed

lemma lone_not_started_done:
  assumes shape: "tasks P = [Not_started l]"
    and nr: "raised P = None"
    and fin: "outcome (fold (act env cb ps) sched P) \<noteq> None"
  shows "\<exists>post. fold (act env cb ps) sched P =
     fold (act env cb ps) post (act env cb ps (Continue 0) P)"
proof -
  from not_started_phase[OF shape, of env cb ps sched] show ?thesis
  proof
    assume "fold (act env cb ps) sched P = P"
    then have "outcome (fold (act env cb ps) sched P) = None"
      using nr shape by (simp add: outcome_def)
    with fin show ?thesis by simp
  qed blast
qed

section \<open>The claims\<close>

text \<open>
  Claim C8. With \<open>max_retries = 0\<close> the loop of \<open>fetch_with_retry\<close> has no iteration: the
  call returns \<open>{}\<close> for every endpoint and parameter map, whatever the cache and the
  network hold, and all it leaves behind is the error log line. The cache is untouched, and
  there is no request and no handler call in the trace.
\<close>
theorem no_attempt_when_max_retries_is_zero:
  "max_retries s = 0 \<Longrightarrow>
   fetch_with_retry env api ps s =
     (Inr Empty_result,
      s\<lparr>trace := trace s @ [Fetch_with_retry (base_url api) ps, Log_gave_up 0 (base_url api)]\<rparr>)"
  by (simp add: fetch_with_retry_def add_events_def)

theorem no_attempt_when_max_retries_is_zero_witness:
  "max_retries (new_Getter 0) = 0 \<and>
   fetch_with_retry (ex_env (\<lambda>i rq. Inr (ok_response []))) ex_start [(''id'', ''1'')] (new_Getter 0) =
     (Inr Empty_result,
      \<lparr>cache = Map.empty, max_retries = 0,
       trace = [Fetch_with_retry ''https://xkcd.com/{id}/info.0.json'' [(''id'', ''1'')],
                Log_gave_up 0 ''https://xkcd.com/{id}/info.0.json'']\<rparr>)"
  using no_attempt_when_max_retries_is_zero
    [of "new_Getter 0" "ex_env (\<lambda>i rq. Inr (ok_response []))" ex_start "[(''id'', ''1'')]"]
  by (simp add: new_Getter_def ex_start_def)

lemma fetch_requests_le:
  "n_requests (trace (snd (fetch env api ps s))) \<le> n_requests (trace s) + 1"
  by (auto simp: fetch_def Let_def handle_status_def add_events_def n_requests_def
       split: option.splits sum.splits if_splits prod.splits)

lemma fetch_200:
  assumes miss: "cache s (cache_key api ps) = None"
    and url: "format env (base_url api) (url_parameters api ps) = Inr url"
    and resp: "net env (n_requests (trace s)) (build_request api url (data_parameters api ps)) = Inr resp"
    and st: "status resp = 200"
    and doc: "json resp = Inr doc"
    and ex: "extract_outputs env doc (output_params api) [] = Inr outs"
  shows "fetch env api ps s =
     (Inr (Result ps outs),
      s\<lparr>cache := (cache s)(cache_key api ps \<mapsto> Result ps outs),
        trace := trace s @ [Request (build_request api url (data_parameters api ps))]\<rparr>)"
  using assms by (simp add: fetch_def add_events_def)

text \<open>
  Claim C4. On a 200 response the output map has one entry per declared field, in the order
  of the declaration. A field whose path has \<open>N \<ge> 1\<close> matches holds the list of the \<open>N\<close>
  values, in the order the extractor gave them; a field with no match holds \<open>None\<close>: the
  key is present, its value is the sentinel.
\<close>
theorem extraction_gives_matches_or_none:
  assumes miss: "cache s (cache_key api ps) = None"
    and url: "format env (base_url api) (url_parameters api ps) = Inr url"
    and resp: "net env (n_requests (trace s)) (build_request api url (data_parameters api ps)) = Inr resp"
    and st: "status resp = 200"
    and doc: "json resp = Inr doc"
    and dist: "distinct (map fst (output_params api))"
    and finds: "\<forall>(n, e) \<in> set (output_params api). \<exists>ms. jsonpath_find env e doc = Inr ms"
  shows "\<exists>outs s'. fetch env api ps s = (Inr (Result ps outs), s')
       \<and> map fst outs = map fst (output_params api)
       \<and> (\<forall>(n, e) \<in> set (output_params api). \<forall>ms. jsonpath_find env e doc = Inr ms \<longrightarrow>
             (ms \<noteq> [] \<longrightarrow> map_of outs n = Some (PList ms)) \<and>
             (ms = [] \<longrightarrow> map_of outs n = Some PNone))"
proof -
  let ?g = "\<lambda>e. matches_or_none (projr (jsonpath_find env e doc))"
  let ?outs = "map (\<lambda>(n, e). (n, ?g e)) (output_params api)"
  have ex: "extract_outputs env doc (output_params api) [] = Inr ?outs"
    using extract_outputs_distinct[OF dist _ finds, of "[]"] by simp
  have keys: "map fst ?outs = map fst (output_params api)"
    by (simp add: case_prod_beta comp_def)
  have vals: "(ms \<noteq> [] \<longrightarrow> map_of ?outs n = Some (PList ms)) \<and>
              (ms = [] \<longrightarrow> map_of ?outs n = Some PNone)"
    if "(n, e) \<in> set (output_params api)" "jsonpath_find env e doc = Inr ms" for n e ms
    using map_of_map_distinct[OF dist that(1), of ?g] that(2)
    by (simp add: matches_or_none_def)
  show ?thesis
    using fetch_200[OF miss url resp st doc ex] keys vals by blast
qed

theorem extraction_gives_matches_or_none_witness:
  "\<exists>outs s'. fetch (ex_env (net_always (ok_response [(''safe_title'', PList [PStr ''Some'', PStr ''Words''])])))
        ex_start [(''id'', ''1'')] (new_Getter 3) = (Inr (Result [(''id'', ''1'')] outs), s')
     \<and> map fst outs = [''title'', ''alt'']
     \<and> map_of outs ''title'' = Some (PList [PStr ''Some'', PStr ''Words''])
     \<and> map_of outs ''alt'' = Some PNone"
proof -
  let ?doc = "[(''safe_title'', PList [PStr ''Some'', PStr ''Words''])]"
  let ?env = "ex_env (net_always (ok_response ?doc))"
  have a: "cache (new_Getter 3) (cache_key ex_start [(''id'', ''1'')]) = None"
    by (simp add: new_Getter_def)
  have b: "format ?env (base_url ex_start) (url_parameters ex_start [(''id'', ''1'')])
      = Inr ''https://xkcd.com/{id}/info.0.json1''"
    by (simp add: url_parameters_def ex_env_def ex_start_def)
  have c: "net ?env (n_requests (trace (new_Getter 3)))
       (build_request ex_start ''https://xkcd.com/{id}/info.0.json1''
          (data_parameters ex_start [(''id'', ''1'')])) = Inr (ok_response ?doc)"
    by (simp add: ex_env_def net_always_def)
  have d: "status (ok_response ?doc) = 200" and e: "json (ok_response ?doc) = Inr (PDict ?doc)"
    by (simp_all add: ok_response_def)
  have f: "distinct (map fst (output_params ex_start))"
    by (simp add: ex_start_def)
  have g: "\<forall>(n, e) \<in> set (output_params ex_start). \<exists>ms. jsonpath_find ?env e (PDict ?doc) = Inr ms"
    by (simp add: ex_start_def ex_env_def)
  have t: "jsonpath_find ?env ''safe_title'' (PDict ?doc) = Inr [PStr ''Some'', PStr ''Words'']"
    and al: "jsonpath_find ?env ''alt'' (PDict ?doc) = Inr []"
    by (simp_all add: ex_env_def)
  have o: "output_params ex_start = [(''title'', ''safe_title''), (''alt'', ''alt'')]"
    by (simp add: ex_start_def)
  from extraction_gives_matches_or_none[OF a b c d e f g]
  obtain outs s' where
    r: "fetch ?env ex_start [(''id'', ''1'')] (new_Getter 3) = (Inr (Result [(''id'', ''1'')] outs), s')"
    and k: "map fst outs = map fst (output_params ex_start)"
    and v: "\<forall>(n, e) \<in> set (output_params ex_start). \<forall>ms. jsonpath_find ?env e (PDict ?doc) = Inr ms \<longrightarrow>
             (ms \<noteq> [] \<longrightarrow> map_of outs n = Some (PList ms)) \<and>
             (ms = [] \<longrightarrow> map_of outs n = Some PNone)"
    by blast
  have "map_of outs ''title'' = Some (PList [PStr ''Some'', PStr ''Words''])"
    using v t by (simp add: o)
  moreover have "map_of outs ''alt'' = Some PNone"
    using v al by (simp add: o)
  moreover have "map fst outs = [''title'', ''alt'']"
    using k by (simp add: o)
  ultimately show ?thesis
    using r by (intro exI[of _ outs] exI[of _ s']) simp
qed



lemma sleeps_append: "sleeps (t @ u) = sleeps t @ sleeps u"
  by (induction t rule: sleeps.induct) simp_all

lemma fetch_no_sleep:
  "\<exists>evs. trace (snd (fetch env api ps s)) = trace s @ evs \<and> sleeps evs = []"
  by (auto simp: fetch_def Let_def handle_status_def add_events_def
       split: option.splits sum.splits if_splits prod.splits)

lemma fetch_status_handler_raises:
  assumes "cache s (cache_key api ps) = None"
    and "format env (base_url api) (url_parameters api ps) = Inr url"
    and "net env (n_requests (trace s)) (build_request api url (data_parameters api ps)) = Inr resp"
    and "status resp \<noteq> 200"
    and "map_of (error_handlers api) (status resp) = Some h" and "h resp = Inl e"
  shows "fetch env api ps s = (Inl e,
     s\<lparr>trace := trace s @ [Request (build_request api url (data_parameters api ps)),
                           Handler_call (status resp)]\<rparr>)"
  using assms by (simp add: fetch_def handle_status_def add_events_def)

lemma retry_loop_failed_attempts:
  assumes fails: "\<forall>j<k. \<exists>c s'. fetch env api ps (S j) = (Inl (ClientResponseError c), s') \<and>
        S (Suc j) = add_events [Log_retrying (base_url api) c, Sleep (2 ^ j)] s'"
  shows "retry_loop env api ps ([0..<k] @ rest) (S 0) = retry_loop env api ps rest (S k)"
  using fails
proof (induction k arbitrary: rest)
  case 0
  show ?case by simp
next
  case (Suc k)
  from Suc.prems have prev: "\<forall>j<k. \<exists>c s'. fetch env api ps (S j) = (Inl (ClientResponseError c), s') \<and>
        S (Suc j) = add_events [Log_retrying (base_url api) c, Sleep (2 ^ j)] s'"
    by simp
  from Suc.prems obtain c s' where
    f: "fetch env api ps (S k) = (Inl (ClientResponseError c), s')"
    and n: "S (Suc k) = add_events [Log_retrying (base_url api) c, Sleep (2 ^ k)] s'"
    by blast
  have "retry_loop env api ps ([0..<Suc k] @ rest) (S 0) =
      retry_loop env api ps ([0..<k] @ (k # rest)) (S 0)"
    by simp
  also have "\<dots> = retry_loop env api ps (k # rest) (S k)"
    by (rule Suc.IH[OF prev])
  also have "\<dots> = retry_loop env api ps rest (S (Suc k))"
    by (simp add: f n)
  finally show ?case .
qed

lemma failed_attempts_sleeps:
  assumes s0: "S 0 = add_events [Fetch_with_retry (base_url api) ps] s"
    and fails: "\<forall>j<k. \<exists>c s'. fetch env api ps (S j) = (Inl (ClientResponseError c), s') \<and>
        S (Suc j) = add_events [Log_retrying (base_url api) c, Sleep (2 ^ j)] s'"
  shows "\<exists>evs. trace (S k) = trace s @ evs \<and> sleeps evs = map (\<lambda>j. 2 ^ j) [0..<k] \<and>
     max_retries (S k) = max_retries s"
  using fails
proof (induction k)
  case 0
  have "trace (S 0) = trace s @ [Fetch_with_retry (base_url api) ps]"
    by (simp add: s0 add_events_def)
  moreover have "max_retries (S 0) = max_retries s" by (simp add: s0 add_events_def)
  ultimately show ?case by simp
next
  case (Suc k)
  from Suc.prems have prev: "\<forall>j<k. \<exists>c s'. fetch env api ps (S j) = (Inl (ClientResponseError c), s') \<and>
        S (Suc j) = add_events [Log_retrying (base_url api) c, Sleep (2 ^ j)] s'"
    by simp
  from Suc.IH[OF prev] obtain evs where
    e: "trace (S k) = trace s @ evs" "sleeps evs = map (\<lambda>j. 2 ^ j) [0..<k]"
    and m: "max_retries (S k) = max_retries s"
    by blast
  from Suc.prems obtain c s' where
    f: "fetch env api ps (S k) = (Inl (ClientResponseError c), s')"
    and n: "S (Suc k) = add_events [Log_retrying (base_url api) c, Sleep (2 ^ k)] s'"
    by blast
  from fetch_no_sleep[of env api ps "S k"] f obtain evs' where
    e': "trace s' = trace (S k) @ evs'" "sleeps evs' = []"
    by auto
  have m': "max_retries s' = max_retries (S k)"
    using fetch_max_retries[of env api ps "S k"] f by simp
  let ?evs = "evs @ evs' @ [Log_retrying (base_url api) c, Sleep (2 ^ k)]"
  have "trace (S (Suc k)) = trace s @ ?evs"
    using e e' n by (simp add: add_events_def)
  moreover have "sleeps ?evs = map (\<lambda>j. 2 ^ j) [0..<Suc k]"
    using e e' by (simp add: sleeps_append)
  moreover have "max_retries (S (Suc k)) = max_retries s"
    using m m' n by (simp add: add_events_def)
  ultimately show ?case by blast
qed

text \<open>
  Claim C3, as amended. \<open>fetch_with_retry\<close> retries an attempt exactly when the attempt
  raises a \<open>ClientResponseError\<close>, whatever raised it: the request, the reading of the
  body, or the error handler of the endpoint. \<open>S j\<close> is the state before attempt \<open>j\<close>, and
  the first \<open>k\<close> attempts fail so: after failed attempt \<open>j\<close> the call logs and sleeps
  \<open>2 ^ j\<close>. When \<open>k\<close> is \<open>max_retries\<close> the call gives up with \<open>{}\<close>. Otherwise what attempt
  \<open>k\<close> gives is what the call gives, when it is a result, or an exception of another class,
  such as a connection reset, which is raised at once. A response with a status other than
  200 gives a result when no handler is registered or the handler returns, and the
  handler's exception when the handler raises: it is retried only when that exception is a
  \<open>ClientResponseError\<close>.
\<close>
theorem only_client_response_error_is_retried:
  assumes s0: "S 0 = add_events [Fetch_with_retry (base_url api) ps] s"
    and fails: "\<forall>j<k. \<exists>c s'. fetch env api ps (S j) = (Inl (ClientResponseError c), s') \<and>
        S (Suc j) = add_events [Log_retrying (base_url api) c, Sleep (2 ^ j)] s'"
    and k: "k \<le> nat (max_retries s)"
  shows "(k = nat (max_retries s) \<longrightarrow>
            fetch_with_retry env api ps s =
              (Inr Empty_result,
               add_events [Log_gave_up (max_retries s) (base_url api)] (S k)))
       \<and> (k < nat (max_retries s) \<longrightarrow>
            (\<forall>r s'. fetch env api ps (S k) = (Inr r, s') \<longrightarrow>
                 fetch_with_retry env api ps s = (Inr r, s')))
       \<and> (k < nat (max_retries s) \<longrightarrow>
            (\<forall>e s'. fetch env api ps (S k) = (Inl e, s') \<longrightarrow>
                 (\<forall>c. e \<noteq> ClientResponseError c) \<longrightarrow>
                 fetch_with_retry env api ps s = (Inl e, s')))
       \<and> (\<exists>evs. trace (S k) = trace s @ evs \<and> sleeps evs = map (\<lambda>j. 2 ^ j) [0..<k])
       \<and> (\<forall>t url e.
            cache t (cache_key api ps) = None \<longrightarrow>
            format env (base_url api) (url_parameters api ps) = Inr url \<longrightarrow>
            net env (n_requests (trace t)) (build_request api url (data_parameters api ps)) = Inl e \<longrightarrow>
            fetch env api ps t =
              (Inl e, t\<lparr>trace := trace t @
                 [Request (build_request api url (data_parameters api ps))]\<rparr>))
       \<and> (\<forall>t url resp.
            cache t (cache_key api ps) = None \<longrightarrow>
            format env (base_url api) (url_parameters api ps) = Inr url \<longrightarrow>
            net env (n_requests (trace t)) (build_request api url (data_parameters api ps)) = Inr resp \<longrightarrow>
            status resp \<noteq> 200 \<longrightarrow>
            fetch env api ps t =
              (case map_of (error_handlers api) (status resp) of
                 None \<Rightarrow>
                   (Inr (Result ps []),
                    t\<lparr>cache := (cache t)(cache_key api ps \<mapsto> Result ps []),
                      trace := trace t @
                        [Request (build_request api url (data_parameters api ps)),
                         Log_status url (status resp)]\<rparr>)
               | Some h \<Rightarrow>
                   (case h resp of
                      Inr out \<Rightarrow>
                        (Inr (Result ps out),
                         t\<lparr>cache := (cache t)(cache_key api ps \<mapsto> Result ps out),
                           trace := trace t @
                             [Request (build_request api url (data_parameters api ps)),
                              Handler_call (status resp)]\<rparr>)
                    | Inl e \<Rightarrow>
                        (Inl e,
                         t\<lparr>trace := trace t @
                             [Request (build_request api url (data_parameters api ps)),
                              Handler_call (status resp)]\<rparr>))))"
proof -
  let ?n = "nat (max_retries s)"
  have split: "[0..<?n] = [0..<k] @ [k..<?n]"
    using k upt_add_eq_append[of 0 k "?n - k"] by simp
  have loop: "retry_loop env api ps [0..<?n] (S 0) = retry_loop env api ps [k..<?n] (S k)"
    unfolding split by (rule retry_loop_failed_attempts[OF fails])
  have fwr: "fetch_with_retry env api ps s =
      (case retry_loop env api ps [k..<?n] (S k) of
         (Inl e, s') \<Rightarrow> (Inl e, s')
       | (Inr (Some r), s') \<Rightarrow> (Inr r, s')
       | (Inr None, s') \<Rightarrow>
           (Inr Empty_result, add_events [Log_gave_up (max_retries s') (base_url api)] s'))"
    using loop by (simp add: fetch_with_retry_def s0)
  from failed_attempts_sleeps[OF s0 fails] obtain evs where
    evs: "trace (S k) = trace s @ evs" "sleeps evs = map (\<lambda>j. 2 ^ j) [0..<k]"
    and m: "max_retries (S k) = max_retries s"
    by blast
  have a: "k = ?n \<longrightarrow> fetch_with_retry env api ps s =
      (Inr Empty_result, add_events [Log_gave_up (max_retries s) (base_url api)] (S k))"
  proof
    assume "k = ?n"
    then have "retry_loop env api ps [k..<?n] (S k) = (Inr None, S k)" by simp
    with fwr have "fetch_with_retry env api ps s =
        (Inr Empty_result, add_events [Log_gave_up (max_retries (S k)) (base_url api)] (S k))"
      by simp
    then show "fetch_with_retry env api ps s =
        (Inr Empty_result, add_events [Log_gave_up (max_retries s) (base_url api)] (S k))"
      unfolding m .
  qed
  have kn: "[k..<?n] = k # [Suc k..<?n]" if "k < ?n"
    using that by (simp add: upt_conv_Cons)
  have b: "fetch_with_retry env api ps s = (Inr r, s')"
    if "k < ?n" "fetch env api ps (S k) = (Inr r, s')" for r s'
    using fwr kn[OF that(1)] that(2) by simp
  have c: "fetch_with_retry env api ps s = (Inl e, s')"
    if "k < ?n" "fetch env api ps (S k) = (Inl e, s')" "\<forall>c. e \<noteq> ClientResponseError c" for e s'
    using fwr kn[OF that(1)] that(2,3) by (cases e) simp_all
  have d: "fetch env api ps t =
      (Inl e, t\<lparr>trace := trace t @ [Request (build_request api url (data_parameters api ps))]\<rparr>)"
    if "cache t (cache_key api ps) = None"
      "format env (base_url api) (url_parameters api ps) = Inr url"
      "net env (n_requests (trace t)) (build_request api url (data_parameters api ps)) = Inl e"
    for t url e
    using that by (rule fetch_request_raises)
  have e: "fetch env api ps t =
      (case map_of (error_handlers api) (status resp) of
         None \<Rightarrow>
           (Inr (Result ps []),
            t\<lparr>cache := (cache t)(cache_key api ps \<mapsto> Result ps []),
              trace := trace t @
                [Request (build_request api url (data_parameters api ps)),
                 Log_status url (status resp)]\<rparr>)
       | Some h \<Rightarrow>
           (case h resp of
              Inr out \<Rightarrow>
                (Inr (Result ps out),
                 t\<lparr>cache := (cache t)(cache_key api ps \<mapsto> Result ps out),
                   trace := trace t @
                     [Request (build_request api url (data_parameters api ps)),
                      Handler_call (status resp)]\<rparr>)
            | Inl e \<Rightarrow>
                (Inl e,
                 t\<lparr>trace := trace t @
                     [Request (build_request api url (data_parameters api ps)),
                      Handler_call (status resp)]\<rparr>)))"
    if "cache t (cache_key api ps) = None"
      "format env (base_url api) (url_parameters api ps) = Inr url"
      "net env (n_requests (trace t)) (build_request api url (data_parameters api ps)) = Inr resp"
      "status resp \<noteq> 200"
    for t url resp
    using that
    by (simp add: fetch_def handle_status_def add_events_def split: option.splits sum.splits)
  show ?thesis
    using a b c d e evs by blast
qed


theorem only_client_response_error_is_retried_witness:
  "fetch_with_retry (ex_env (net_always (status_response 500))) ex_raising [] (new_Getter 3) =
     (Inr Empty_result,
      \<lparr>cache = Map.empty, max_retries = 3,
       trace = [Fetch_with_retry ''https://example.org/status'' [],
                Request (build_request ex_raising ''https://example.org/status'' []),
                Handler_call 500, Log_retrying ''https://example.org/status'' 500, Sleep 1,
                Request (build_request ex_raising ''https://example.org/status'' []),
                Handler_call 500, Log_retrying ''https://example.org/status'' 500, Sleep 2,
                Request (build_request ex_raising ''https://example.org/status'' []),
                Handler_call 500, Log_retrying ''https://example.org/status'' 500, Sleep 4,
                Log_gave_up 3 ''https://example.org/status'']\<rparr>)"
proof -
  let ?env = "ex_env (net_always (status_response 500))"
  have s0: "raising_state 0 = add_events [Fetch_with_retry (base_url ex_raising) []] (new_Getter 3)"
    by (simp add: raising_state_def add_events_def new_Getter_def ex_raising_def)
  have f: "fetch ?env ex_raising [] (raising_state j) =
      (Inl (ClientResponseError 500),
       (raising_state j)\<lparr>trace := trace (raising_state j) @
          [Request (build_request ex_raising ''https://example.org/status'' []),
           Handler_call 500]\<rparr>)" for j
    by (simp add: fetch_def raising_state_def ex_env_def net_always_def status_response_def
        url_parameters_def data_parameters_def handle_status_def add_events_def ex_raising_def)
  have n: "raising_state (Suc j) =
      add_events [Log_retrying (base_url ex_raising) 500, Sleep (2 ^ j)]
        ((raising_state j)\<lparr>trace := trace (raising_state j) @
          [Request (build_request ex_raising ''https://example.org/status'' []),
           Handler_call 500]\<rparr>)" for j
    by (simp add: raising_state_def add_events_def ex_raising_def)
  have fails: "\<forall>j<3. \<exists>c s'. fetch ?env ex_raising [] (raising_state j) =
        (Inl (ClientResponseError c), s') \<and>
      raising_state (Suc j) =
        add_events [Log_retrying (base_url ex_raising) c, Sleep (2 ^ j)] s'"
    using f n by blast
  have k: "(3::nat) \<le> nat (max_retries (new_Getter 3))"
    by (simp add: new_Getter_def)
  have three: "[0..<3] = [0, Suc 0, Suc (Suc 0)]"
    by (simp add: upt_conv_Cons)
  from only_client_response_error_is_retried[OF s0 fails k]
  have "fetch_with_retry ?env ex_raising [] (new_Getter 3) =
      (Inr Empty_result,
       add_events [Log_gave_up (max_retries (new_Getter 3)) (base_url ex_raising)]
         (raising_state 3))"
    by (simp add: new_Getter_def)
  then show ?thesis
    by (simp add: raising_state_def three add_events_def new_Getter_def ex_raising_def)
qed

theorem other_exceptions_and_raising_handlers_counterexample:
  "fetch_with_retry (ex_env net_reset_then_ok) ex_start [(''id'', ''1'')] (new_Getter 3) =
     (Inl (ClientConnectionError ''Connection reset by peer''),
      \<lparr>cache = Map.empty, max_retries = 3,
       trace = [Fetch_with_retry (base_url ex_start) [(''id'', ''1'')],
                Request (build_request ex_start ''https://xkcd.com/{id}/info.0.json1'' [])]\<rparr>)
   \<and> fst (fetch_with_retry (ex_env (net_always (status_response 500))) ex_raising []
             (new_Getter 3)) = Inr Empty_result
   \<and> n_requests (trace (snd (fetch_with_retry (ex_env (net_always (status_response 500)))
             ex_raising [] (new_Getter 3)))) = 3
   \<and> sleeps (trace (snd (fetch_with_retry (ex_env (net_always (status_response 500)))
             ex_raising [] (new_Getter 3)))) = [1, 2, 4]"
proof -
  have three: "[0..<3] = [0, Suc 0, Suc (Suc 0)]"
    by (simp add: upt_conv_Cons)
  have f: "fetch (ex_env net_reset_then_ok) ex_start [(''id'', ''1'')]
             \<lparr>cache = Map.empty, max_retries = 3,
              trace = [Fetch_with_retry (base_url ex_start) [(''id'', ''1'')]]\<rparr> =
     (Inl (ClientConnectionError ''Connection reset by peer''),
      \<lparr>cache = Map.empty, max_retries = 3,
       trace = [Fetch_with_retry (base_url ex_start) [(''id'', ''1'')],
                Request (build_request ex_start ''https://xkcd.com/{id}/info.0.json1'' [])]\<rparr>)"
    by (simp add: fetch_def ex_env_def net_reset_then_ok_def url_parameters_def
        data_parameters_def add_events_def n_requests_def ex_start_def)
  have a: "fetch_with_retry (ex_env net_reset_then_ok) ex_start [(''id'', ''1'')] (new_Getter 3) =
     (Inl (ClientConnectionError ''Connection reset by peer''),
      \<lparr>cache = Map.empty, max_retries = 3,
       trace = [Fetch_with_retry (base_url ex_start) [(''id'', ''1'')],
                Request (build_request ex_start ''https://xkcd.com/{id}/info.0.json1'' [])]\<rparr>)"
    by (simp add: fetch_with_retry_def new_Getter_def add_events_def three f)
  have g: "fetch (ex_env (net_always (status_response 500))) ex_raising []
             \<lparr>cache = Map.empty, max_retries = 3, trace = t\<rparr> =
      (Inl (ClientResponseError 500),
       \<lparr>cache = Map.empty, max_retries = 3,
        trace = t @ [Request (build_request ex_raising ''https://example.org/status'' []),
                     Handler_call 500]\<rparr>)" for t
    by (simp add: fetch_def ex_env_def net_always_def status_response_def
        url_parameters_def data_parameters_def handle_status_def add_events_def ex_raising_def)
  have b: "fetch_with_retry (ex_env (net_always (status_response 500))) ex_raising []
      (new_Getter 3) =
     (Inr Empty_result,
      \<lparr>cache = Map.empty, max_retries = 3,
       trace = [Fetch_with_retry ''https://example.org/status'' [],
                Request (build_request ex_raising ''https://example.org/status'' []),
                Handler_call 500, Log_retrying ''https://example.org/status'' 500, Sleep 1,
                Request (build_request ex_raising ''https://example.org/status'' []),
                Handler_call 500, Log_retrying ''https://example.org/status'' 500, Sleep 2,
                Request (build_request ex_raising ''https://example.org/status'' []),
                Handler_call 500, Log_retrying ''https://example.org/status'' 500, Sleep 4,
                Log_gave_up 3 ''https://example.org/status'']\<rparr>)"
    by (simp add: fetch_with_retry_def new_Getter_def add_events_def three g)
       (simp add: ex_raising_def)
  show ?thesis
    by (simp add: a b n_requests_def)
qed

text \<open>
  Claim C2, as amended. \<open>fetch_seq\<close> is a sequence of calls of \<open>fetch\<close> of which none
  begins before the one before it has ended. In such a sequence with one cache key (the base
  URL and the set of the parameter items, whatever their order and whatever else the API
  declares), once the first call has returned a result every later call returns that very
  result and leaves the state as it is, so it issues no request; the first call issues one
  request at most. The counterexample has the two ways in which the claim fails without
  these conditions: a call that raises stores nothing, and two calls that overlap both
  miss the cache, issue a request each, and both return.
\<close>
theorem repeated_fetch_is_served_from_the_cache:
  assumes first: "fetch env api ps s = (Inr r, s1)"
    and same: "\<forall>(api', ps') \<in> set calls. cache_key api' ps' = cache_key api ps"
  shows "fetch_seq env ((api, ps) # calls) s = (replicate (Suc (length calls)) (Inr r), s1)
       \<and> n_requests (trace s1) \<le> n_requests (trace s) + 1"
proof -
  have c: "cache s1 (cache_key api ps) = Some r"
    using first by (rule fetch_stores)
  have "fetch_seq env calls s1 = (replicate (length calls) (Inr r), s1)"
    using c same by (rule fetch_seq_same_key)
  then have "fetch_seq env ((api, ps) # calls) s = (replicate (Suc (length calls)) (Inr r), s1)"
    using first by simp
  moreover have "n_requests (trace s1) \<le> n_requests (trace s) + 1"
    using fetch_requests_le[of env api ps s] first by simp
  ultimately show ?thesis by simp
qed

theorem repeated_fetch_is_served_from_the_cache_witness:
  "fetch_seq (ex_env (net_always (status_response 500)))
      [(ex_start, [(''id'', ''1''), (''x'', ''2'')]), (ex_bare, [(''x'', ''2''), (''id'', ''1'')]),
       (ex_start, [(''id'', ''1''), (''x'', ''2'')])] (new_Getter 3) =
     ([Inr (Result [(''id'', ''1''), (''x'', ''2'')] []),
       Inr (Result [(''id'', ''1''), (''x'', ''2'')] []),
       Inr (Result [(''id'', ''1''), (''x'', ''2'')] [])],
      \<lparr>cache = [cache_key ex_start [(''id'', ''1''), (''x'', ''2'')] \<mapsto>
                  Result [(''id'', ''1''), (''x'', ''2'')] []],
       max_retries = 3,
       trace = [Request (build_request ex_start ''https://xkcd.com/{id}/info.0.json1'' []),
                Log_status ''https://xkcd.com/{id}/info.0.json1'' 500]\<rparr>)"
proof -
  let ?env = "ex_env (net_always (status_response 500))"
  let ?ps = "[(''id'', ''1''), (''x'', ''2'')]"
  let ?s1 = "\<lparr>cache = [cache_key ex_start ?ps \<mapsto> Result ?ps []],
       max_retries = 3,
       trace = [Request (build_request ex_start ''https://xkcd.com/{id}/info.0.json1'' []),
                Log_status ''https://xkcd.com/{id}/info.0.json1'' 500]\<rparr>"
  have first: "fetch ?env ex_start ?ps (new_Getter 3) = (Inr (Result ?ps []), ?s1)"
    by (simp add: fetch_def new_Getter_def ex_env_def net_always_def status_response_def
        url_parameters_def data_parameters_def handle_status_def add_events_def ex_start_def)
  have same: "\<forall>(api', ps') \<in> set [(ex_bare, [(''x'', ''2''), (''id'', ''1'')]), (ex_start, ?ps)].
      cache_key api' ps' = cache_key ex_start ?ps"
    by (auto simp: cache_key_def ex_bare_def ex_start_def)
  from repeated_fetch_is_served_from_the_cache[OF first same] show ?thesis
    by simp
qed

theorem failed_or_overlapping_fetches_counterexample:
  "\<not> n_requests (trace (snd (fetch_seq (ex_env net_503_twice)
      [(ex_start, [(''id'', ''1'')]), (ex_start, [(''id'', ''1'')])] (new_Getter 3)))) \<le> 1
   \<and> (case fold (resume_child (ex_env (net_always (ok_response []))) ex_start)
              [0, 1, 0, 1, 0, 1, 0, 1]
              ([([(''id'', ''1'')], Created), ([(''id'', ''1'')], Created)], None,
               new_Getter 3, 2) of
         (children, first, s, free) \<Rightarrow>
           gathered children =
             Some [Result [(''id'', ''1'')] [(''title'', PNone), (''alt'', PNone)],
                   Result [(''id'', ''1'')] [(''title'', PNone), (''alt'', PNone)]] \<and>
           \<not> n_requests (trace s) \<le> 1)"
proof -
  have f: "fetch (ex_env net_503_twice) ex_start [(''id'', ''1'')]
             \<lparr>cache = Map.empty, max_retries = 3, trace = t\<rparr> =
     (if n_requests t < 2 then Inl (ClientResponseError 503) else Inr (Result [(''id'', ''1'')] []),
      \<lparr>cache = (if n_requests t < 2 then Map.empty
                 else [cache_key ex_start [(''id'', ''1'')] \<mapsto> Result [(''id'', ''1'')] []]),
       max_retries = 3,
       trace = t @ [Request (build_request ex_start ''https://xkcd.com/{id}/info.0.json1'' [])] @
          (if n_requests t < 2 then [] else [Log_status ''https://xkcd.com/{id}/info.0.json1'' 500])\<rparr>)" for t
    by (simp add: fetch_def ex_env_def net_503_twice_def status_response_def url_parameters_def
        data_parameters_def handle_status_def add_events_def ex_start_def)
  have a: "n_requests (trace (snd (fetch_seq (ex_env net_503_twice)
      [(ex_start, [(''id'', ''1'')]), (ex_start, [(''id'', ''1'')])] (new_Getter 3)))) = 2"
    by (simp add: new_Getter_def f) (simp add: n_requests_def)
  have b: "fold (resume_child (ex_env (net_always (ok_response []))) ex_start)
              [0, 1, 0, 1, 0, 1, 0, 1]
              ([([(''id'', ''1'')], Created), ([(''id'', ''1'')], Created)], None,
               new_Getter 3, 2) =
      ([([(''id'', ''1'')],
         Finished (Inr (Result [(''id'', ''1'')] [(''title'', PNone), (''alt'', PNone)]))),
        ([(''id'', ''1'')],
         Finished (Inr (Result [(''id'', ''1'')] [(''title'', PNone), (''alt'', PNone)])))],
       None,
       \<lparr>cache = [cache_key ex_start [(''id'', ''1'')] \<mapsto>
                   Result [(''id'', ''1'')] [(''title'', PNone), (''alt'', PNone)]],
        max_retries = 3,
        trace = [Fetch_with_retry (base_url ex_start) [(''id'', ''1'')],
                 Request (build_request ex_start ''https://xkcd.com/{id}/info.0.json1'' []),
                 Fetch_with_retry (base_url ex_start) [(''id'', ''1'')],
                 Request (build_request ex_start ''https://xkcd.com/{id}/info.0.json1'' [])]\<rparr>,
       2)"
    by (simp add: begin_attempt_def new_Getter_def add_events_def Let_def n_requests_def
        ex_env_def net_always_def ok_response_def url_parameters_def data_parameters_def
        matches_or_none_def ex_start_def)
  have c: "\<not> n_requests (trace (snd (fetch_seq (ex_env net_503_twice)
      [(ex_start, [(''id'', ''1'')]), (ex_start, [(''id'', ''1'')])] (new_Getter 3)))) \<le> 1"
    using a by simp
  show ?thesis
    unfolding b by (rule conjI[OF c]) (simp add: n_requests_def)
qed

lemma start_turns:
  "tasks P = [At_start a b f t] \<Longrightarrow>
   (turn env a ps ^^ k) (t, getter P, permits P) = (t', s', fr') \<Longrightarrow>
   fold (act env cb ps) (replicate k (Resume 0 0)) P =
     P\<lparr>getter := s', permits := fr', tasks := [At_start a b f t']\<rparr>"
proof (induction k arbitrary: P t)
  case 0
  then show ?case by (simp add: pool_same)
next
  case (Suc k)
  obtain t1 s1 fr1 where t1: "turn env a ps (t, getter P, permits P) = (t1, s1, fr1)"
    by (cases "turn env a ps (t, getter P, permits P)")
  let ?P1 = "P\<lparr>getter := s1, permits := fr1, tasks := [At_start a b f t1]\<rparr>"
  have a1: "act env cb ps (Resume 0 0) P = ?P1"
    using Suc.prems(1) t1 by (simp add: turn_def)
  have "(turn env a ps ^^ k) (t1, getter ?P1, permits ?P1) = (t', s', fr')"
    using Suc.prems(2) t1 by (simp add: funpow_swap1)
  from Suc.IH[OF _ this] have
    "fold (act env cb ps) (replicate k (Resume 0 0)) ?P1 =
       ?P1\<lparr>getter := s', permits := fr', tasks := [At_start a b f t']\<rparr>"
    by simp
  then show ?case
    using a1 by simp
qed

lemma lone_api_step:
  assumes fin: "outcome (run_tasks env cb [APILinkage a b f] ps (Suc w) res sched s) \<noteq> None"
    and fw: "fetch_with_retry env a ps s = (r, s1)"
  shows "\<exists>post. run_tasks env cb [APILinkage a b f] ps (Suc w) res sched s =
     fold (act env cb ps) post
       (act env cb ps (Continue 0)
          \<lparr>getter = s1, permits = Suc w, shared = res,
           tasks = [At_start a b f (Finished r)], raised = None\<rparr>)"
proof -
  let ?P0 = "\<lparr>getter = s, permits = Suc w, shared = res,
              tasks = [Not_started (APILinkage a b f)], raised = None\<rparr>"
  let ?P1 = "\<lparr>getter = s, permits = Suc w, shared = res,
              tasks = [At_start a b f Created], raised = None\<rparr>"
  have run: "run_tasks env cb [APILinkage a b f] ps (Suc w) res sched s =
      fold (act env cb ps) sched ?P0"
    by (simp add: run_tasks_def)
  have c0: "act env cb ps (Continue 0) ?P0 = ?P1" by simp
  from lone_not_started_done[of ?P0 "APILinkage a b f" env cb ps sched] fin run c0
  obtain post where p: "fold (act env cb ps) sched ?P0 = fold (act env cb ps) post ?P1"
    by auto
  have fin1: "outcome (fold (act env cb ps) post ?P1) \<noteq> None"
    using fin run p by simp
  from lone_start_done[of ?P1 a b f w env cb ps post r s1] fin1 fw
  obtain post' where "fold (act env cb ps) post ?P1 =
      fold (act env cb ps) post'
        (act env cb ps (Continue 0)
           (?P1\<lparr>getter := s1, tasks := [At_start a b f (Finished r)]\<rparr>))"
    by auto
  with run p show ?thesis by auto
qed

lemma lone_api_step_runs:
  assumes fw: "fetch_with_retry env a ps s = (r, s1)"
  shows "\<exists>pre. \<forall>post. run_tasks env cb [APILinkage a b f] ps (Suc w) res (pre @ post) s =
     fold (act env cb ps) post
       (act env cb ps (Continue 0)
          \<lparr>getter = s1, permits = Suc w, shared = res,
           tasks = [At_start a b f (Finished r)], raised = None\<rparr>)"
proof -
  let ?P1 = "\<lparr>getter = s, permits = Suc w, shared = res,
              tasks = [At_start a b f Created], raised = None\<rparr>"
  from fetch_with_retry_alone[OF fw, of w] obtain m where
    m: "(turn env a ps ^^ m) (Created, s, Suc w) = (Finished r, s1, Suc w)" by blast
  have "fold (act env cb ps) (replicate m (Resume 0 0)) ?P1 =
      ?P1\<lparr>getter := s1, permits := Suc w, tasks := [At_start a b f (Finished r)]\<rparr>"
    using start_turns[where P = ?P1 and t = Created and k = m and t' = "Finished r"
        and s' = s1 and fr' = "Suc w" and env = env and a = a and ps = ps and cb = cb
        and b = b and f = f] m
    by simp
  then have "run_tasks env cb [APILinkage a b f] ps (Suc w) res
      ((Continue 0 # replicate m (Resume 0 0) @ [Continue 0]) @ post) s =
     fold (act env cb ps) post
       (act env cb ps (Continue 0)
          \<lparr>getter = s1, permits = Suc w, shared = res,
           tasks = [At_start a b f (Finished r)], raised = None\<rparr>)" for post
    by (simp add: run_tasks_def)
  then show ?thesis by blast
qed

lemma returned_outcome:
  "tasks P = [Returned (Inr ())] \<Longrightarrow> raised P = None \<Longrightarrow>
   fold (act env cb ps) post P = P \<and> outcome P = Some (Inr ())"
  using run_terminal[of P "Inr ()" env cb ps post] by (simp add: outcome_def)

lemma raised_outcome:
  "tasks P = [Returned (Inl e)] \<Longrightarrow> raised P = Some e \<Longrightarrow>
   fold (act env cb ps) post P = P \<and> outcome P = Some (Inl e)"
  using run_terminal[of P "Inl e" env cb ps post] by (simp add: outcome_def)

section \<open>The claims about the engine\<close>

text \<open>
  Claim C7. A transform step applies its function to the accumulator, merges the delta
  into it (a key of the delta takes the delta's value, every other key keeps its entry),
  and calls the callback exactly once, with the merged accumulator. The whole step is one
  turn of its task, whatever the other tasks of the run are doing.
\<close>
theorem transform_step_merges_and_calls_back_once:
  assumes "function results = Inr delta"
  shows "process_linkage cb (Not_started (PythonLinkage function)) results s =
     (Returned (case cb (results ++ delta) of Inl e \<Rightarrow> Inl e | Inr u \<Rightarrow> Inr ()),
      results ++ delta,
      s\<lparr>trace := trace s @ [Transform_call results, Callback (results ++ delta)]\<rparr>)
   \<and> (\<forall>k v. delta k = Some v \<longrightarrow> (results ++ delta) k = Some v)
   \<and> (\<forall>k. delta k = None \<longrightarrow> (results ++ delta) k = results k)
   \<and> (\<forall>P i. i < length (tasks P) \<longrightarrow> tasks P ! i = Not_started (PythonLinkage function) \<longrightarrow>
         shared P = results \<longrightarrow> getter P = s \<longrightarrow>
         act env cb ps (Continue i) P =
           P\<lparr>getter := s\<lparr>trace := trace s @
                  [Transform_call results, Callback (results ++ delta)]\<rparr>,
             shared := results ++ delta,
             tasks := (tasks P)[i := Returned
               (case cb (results ++ delta) of Inl e \<Rightarrow> Inl e | Inr u \<Rightarrow> Inr ())],
             raised := first_raised
               (Returned (case cb (results ++ delta) of Inl e \<Rightarrow> Inl e | Inr u \<Rightarrow> Inr ()))
               (raised P)\<rparr>)"
  using assms by (simp add: add_events_def Let_def map_add_def split: sum.splits)

theorem transform_step_merges_and_calls_back_once_witness:
  "process_linkage ex_callback (Not_started (PythonLinkage ex_transform))
      [''a'' \<mapsto> Empty_result, ''b'' \<mapsto> Empty_result] (new_Getter 3) =
     (Returned (Inr ()),
      [''a'' \<mapsto> Empty_result, ''b'' \<mapsto> Result [] []],
      \<lparr>cache = Map.empty, max_retries = 3,
       trace = [Transform_call [''a'' \<mapsto> Empty_result, ''b'' \<mapsto> Empty_result],
                Callback [''a'' \<mapsto> Empty_result, ''b'' \<mapsto> Result [] []]]\<rparr>)"
proof -
  have m: "[''a'' \<mapsto> Empty_result, ''b'' \<mapsto> Empty_result] ++ [''b'' \<mapsto> Result [] []]
      = [''a'' \<mapsto> Empty_result, ''b'' \<mapsto> Result [] []]"
    by (rule ext) (simp add: map_add_def)
  have h: "ex_transform [''a'' \<mapsto> Empty_result, ''b'' \<mapsto> Empty_result] =
      Inr [''b'' \<mapsto> Result [] []]"
    by (simp add: ex_transform_def)
  from transform_step_merges_and_calls_back_once
      [of ex_transform "[''a'' \<mapsto> Empty_result, ''b'' \<mapsto> Empty_result]"
          "[''b'' \<mapsto> Result [] []]" ex_callback "new_Getter 3"]
  show ?thesis
    by (simp add: m h ex_callback_def new_Getter_def)
qed

text \<open>
  Claim C5. A response with a status other than 200 is never an exception. With a handler
  registered for the status, the handler's return value is the output map of the result;
  with none, the output map is empty and the status is logged. Either way the result is
  returned and cached, and a linkage step whose start fetch ends this way completes: some
  schedule brings the run to its end, and every schedule that does leaves the same pool,
  in which the step has returned normally, nothing was raised, and, there being nothing to
  fan out, no callback was made.
\<close>
theorem non_200_status_handler_or_empty:
  assumes miss: "cache s (cache_key api ps) = None"
    and url: "format env (base_url api) (url_parameters api ps) = Inr url"
    and resp: "net env (n_requests (trace s)) (build_request api url (data_parameters api ps)) = Inr resp"
    and st: "status resp \<noteq> 200"
  shows "(\<forall>h out. map_of (error_handlers api) (status resp) = Some h \<longrightarrow> h resp = Inr out \<longrightarrow>
            fetch env api ps s =
              (Inr (Result ps out),
               s\<lparr>cache := (cache s)(cache_key api ps \<mapsto> Result ps out),
                 trace := trace s @ [Request (build_request api url (data_parameters api ps)),
                                     Handler_call (status resp)]\<rparr>))
       \<and> (map_of (error_handlers api) (status resp) = None \<longrightarrow>
            fetch env api ps s =
              (Inr (Result ps []),
               s\<lparr>cache := (cache s)(cache_key api ps \<mapsto> Result ps []),
                 trace := trace s @ [Request (build_request api url (data_parameters api ps)),
                                     Log_status url (status resp)]\<rparr>))
       \<and> (map_of (error_handlers api) (status resp) = None \<longrightarrow> 0 < max_retries s \<longrightarrow>
            (\<exists>sched. outcome (run_tasks env cb [APILinkage api end_api linkage_function] ps
                         (Suc w) results sched s) \<noteq> None) \<and>
            (\<forall>sched. outcome (run_tasks env cb [APILinkage api end_api linkage_function] ps
                         (Suc w) results sched s) \<noteq> None \<longrightarrow>
               run_tasks env cb [APILinkage api end_api linkage_function] ps
                 (Suc w) results sched s =
                 \<lparr>getter =
                    s\<lparr>cache := (cache s)(cache_key api ps \<mapsto> Result ps []),
                      trace := trace s @ [Fetch_with_retry (base_url api) ps,
                                          Request (build_request api url (data_parameters api ps)),
                                          Log_status url (status resp)]\<rparr>,
                  permits = Suc w,
                  shared = results(base_url api \<mapsto> Result ps []),
                  tasks = [Returned (Inr ())], raised = None\<rparr>))"
proof (intro conjI allI impI)
  fix h out
  assume "map_of (error_handlers api) (status resp) = Some h" "h resp = Inr out"
  then show "fetch env api ps s =
      (Inr (Result ps out),
       s\<lparr>cache := (cache s)(cache_key api ps \<mapsto> Result ps out),
         trace := trace s @ [Request (build_request api url (data_parameters api ps)),
                             Handler_call (status resp)]\<rparr>)"
    by (rule fetch_status_handler[OF miss url resp st])
next
  assume "map_of (error_handlers api) (status resp) = None"
  then show "fetch env api ps s =
      (Inr (Result ps []),
       s\<lparr>cache := (cache s)(cache_key api ps \<mapsto> Result ps []),
         trace := trace s @ [Request (build_request api url (data_parameters api ps)),
                             Log_status url (status resp)]\<rparr>)"
    by (rule fetch_status_unhandled[OF miss url resp st])
next
  assume none: "map_of (error_handlers api) (status resp) = None" and pos: "0 < max_retries s"
  let ?s0 = "add_events [Fetch_with_retry (base_url api) ps] s"
  let ?s1 = "s\<lparr>cache := (cache s)(cache_key api ps \<mapsto> Result ps []),
                trace := trace s @ [Fetch_with_retry (base_url api) ps,
                                    Request (build_request api url (data_parameters api ps)),
                                    Log_status url (status resp)]\<rparr>"
  let ?final = "\<lparr>getter = ?s1, permits = Suc w,
                  shared = results(base_url api \<mapsto> Result ps []),
                  tasks = [Returned (Inr ())], raised = None\<rparr>"
  have miss0: "cache ?s0 (cache_key api ps) = None"
    using miss by (simp add: add_events_def)
  have resp0: "net env (n_requests (trace ?s0)) (build_request api url (data_parameters api ps)) = Inr resp"
    using resp by (simp add: add_events_def n_requests_def)
  have f: "fetch env api ps ?s0 = (Inr (Result ps []), ?s1)"
    using fetch_status_unhandled[OF miss0 url resp0 st none] by (simp add: add_events_def)
  have fw: "fetch_with_retry env api ps s = (Inr (Result ps []), ?s1)"
    by (rule fetch_with_retry_first[OF pos f])
  have cont: "act env cb ps (Continue 0)
       \<lparr>getter = ?s1, permits = Suc w, shared = results,
        tasks = [At_start api end_api linkage_function (Finished (Inr (Result ps [])))],
        raised = None\<rparr> = ?final"
    by simp
  have fixed: "fold (act env cb ps) post ?final = ?final \<and> outcome ?final = Some (Inr ())" for post
    by (rule returned_outcome) simp_all
  from lone_api_step_runs[OF fw, of cb end_api linkage_function w results]
  obtain pre where "\<forall>post. run_tasks env cb [APILinkage api end_api linkage_function] ps
      (Suc w) results (pre @ post) s = fold (act env cb ps) post ?final"
    unfolding cont by auto
  then have pre: "run_tasks env cb [APILinkage api end_api linkage_function] ps
      (Suc w) results (pre @ []) s = ?final"
    by (simp del: append_Nil2)
  then show "\<exists>sched. outcome (run_tasks env cb [APILinkage api end_api linkage_function] ps
                         (Suc w) results sched s) \<noteq> None"
    using fixed by (metis option.distinct(1))
next
  fix sched
  assume none: "map_of (error_handlers api) (status resp) = None" and pos: "0 < max_retries s"
    and fin: "outcome (run_tasks env cb [APILinkage api end_api linkage_function] ps
                         (Suc w) results sched s) \<noteq> None"
  let ?s0 = "add_events [Fetch_with_retry (base_url api) ps] s"
  let ?s1 = "s\<lparr>cache := (cache s)(cache_key api ps \<mapsto> Result ps []),
                trace := trace s @ [Fetch_with_retry (base_url api) ps,
                                    Request (build_request api url (data_parameters api ps)),
                                    Log_status url (status resp)]\<rparr>"
  let ?final = "\<lparr>getter = ?s1, permits = Suc w,
                  shared = results(base_url api \<mapsto> Result ps []),
                  tasks = [Returned (Inr ())], raised = None\<rparr>"
  have miss0: "cache ?s0 (cache_key api ps) = None"
    using miss by (simp add: add_events_def)
  have resp0: "net env (n_requests (trace ?s0)) (build_request api url (data_parameters api ps)) = Inr resp"
    using resp by (simp add: add_events_def n_requests_def)
  have f: "fetch env api ps ?s0 = (Inr (Result ps []), ?s1)"
    using fetch_status_unhandled[OF miss0 url resp0 st none] by (simp add: add_events_def)
  have fw: "fetch_with_retry env api ps s = (Inr (Result ps []), ?s1)"
    by (rule fetch_with_retry_first[OF pos f])
  have cont: "act env cb ps (Continue 0)
       \<lparr>getter = ?s1, permits = Suc w, shared = results,
        tasks = [At_start api end_api linkage_function (Finished (Inr (Result ps [])))],
        raised = None\<rparr> = ?final"
    by simp
  have fixed: "fold (act env cb ps) post ?final = ?final" for post
    using returned_outcome[of ?final env cb ps post] by simp
  from lone_api_step[OF fin fw] show
    "run_tasks env cb [APILinkage api end_api linkage_function] ps (Suc w) results sched s =
       ?final"
    unfolding cont by (auto simp: fixed)
qed

theorem non_200_status_handler_or_empty_witness:
  "fetch (ex_env (net_always (status_response 404))) ex_start [(''id'', ''1'')] (new_Getter 3) =
     (Inr (Result [(''id'', ''1'')] [(''title'', PList [PStr ''No title found''])]),
      \<lparr>cache = [cache_key ex_start [(''id'', ''1'')] \<mapsto>
                  Result [(''id'', ''1'')] [(''title'', PList [PStr ''No title found''])]],
       max_retries = 3,
       trace = [Request (build_request ex_start ''https://xkcd.com/{id}/info.0.json1'' []),
                Handler_call 404]\<rparr>)
   \<and> fetch (ex_env (net_always (status_response 500))) ex_start [(''id'', ''1'')] (new_Getter 3) =
     (Inr (Result [(''id'', ''1'')] []),
      \<lparr>cache = [cache_key ex_start [(''id'', ''1'')] \<mapsto> Result [(''id'', ''1'')] []],
       max_retries = 3,
       trace = [Request (build_request ex_start ''https://xkcd.com/{id}/info.0.json1'' []),
                Log_status ''https://xkcd.com/{id}/info.0.json1'' 500]\<rparr>)"
proof -
  have a: "cache (new_Getter 3) (cache_key ex_start [(''id'', ''1'')]) = None"
    by (simp add: new_Getter_def)
  have u: "url_parameters ex_start [(''id'', ''1'')] = [(''id'', ''1'')]"
    by (simp add: url_parameters_def ex_start_def)
  have d: "data_parameters ex_start [(''id'', ''1'')] = []"
    by (simp add: data_parameters_def ex_start_def)
  have b: "format (ex_env nw) (base_url ex_start) (url_parameters ex_start [(''id'', ''1'')])
      = Inr ''https://xkcd.com/{id}/info.0.json1''" for nw
    by (simp add: url_parameters_def ex_env_def ex_start_def)
  have c: "net (ex_env (net_always (status_response st))) (n_requests (trace (new_Getter 3)))
       (build_request ex_start ''https://xkcd.com/{id}/info.0.json1''
          (data_parameters ex_start [(''id'', ''1'')])) = Inr (status_response st)" for st
    by (simp add: ex_env_def net_always_def)
  have s4: "status (status_response 404) \<noteq> 200" and s5: "status (status_response 500) \<noteq> 200"
    by (simp_all add: status_response_def)
  have h4: "map_of (error_handlers ex_start) (status (status_response 404))
      = Some (\<lambda>res. Inr [(''title'', PList [PStr ''No title found''])])"
    by (simp add: ex_start_def status_response_def)
  have h5: "map_of (error_handlers ex_start) (status (status_response 500)) = None"
    by (simp add: ex_start_def status_response_def)
  from non_200_status_handler_or_empty[OF a b c s4] h4
  have "fetch (ex_env (net_always (status_response 404))) ex_start [(''id'', ''1'')] (new_Getter 3) =
     (Inr (Result [(''id'', ''1'')] [(''title'', PList [PStr ''No title found''])]),
      (new_Getter 3)\<lparr>cache := (cache (new_Getter 3))(cache_key ex_start [(''id'', ''1'')] \<mapsto>
                  Result [(''id'', ''1'')] [(''title'', PList [PStr ''No title found''])]),
        trace := trace (new_Getter 3) @
          [Request (build_request ex_start ''https://xkcd.com/{id}/info.0.json1''
              (data_parameters ex_start [(''id'', ''1'')])),
           Handler_call (status (status_response 404))]\<rparr>)"
    by blast
  moreover from non_200_status_handler_or_empty[OF a b c s5] h5
  have "fetch (ex_env (net_always (status_response 500))) ex_start [(''id'', ''1'')] (new_Getter 3) =
     (Inr (Result [(''id'', ''1'')] []),
      (new_Getter 3)\<lparr>cache := (cache (new_Getter 3))(cache_key ex_start [(''id'', ''1'')] \<mapsto>
                  Result [(''id'', ''1'')] []),
        trace := trace (new_Getter 3) @
          [Request (build_request ex_start ''https://xkcd.com/{id}/info.0.json1''
              (data_parameters ex_start [(''id'', ''1'')])),
           Log_status ''https://xkcd.com/{id}/info.0.json1'' (status (status_response 500))]\<rparr>)"
    by blast
  ultimately show ?thesis
    by (simp add: d new_Getter_def status_response_def)
qed

text \<open>
  Claim C1 does not hold of the code. When every attempt of the start fetch fails with a
  \<open>ClientResponseError\<close> (here: a 200 response that is not JSON, three times),
  \<open>fetch_with_retry\<close> does return \<open>{}\<close> without raising, but \<open>process_linkage\<close> then
  evaluates \<open>start_response['output']\<close> on it: the \<open>KeyError\<close> leaves the task and the gather
  of \<open>run_flow\<close>, and the run is aborted instead of carrying on without that branch. The
  run does come to its end, and under every schedule that brings it there it ends this way.
\<close>
theorem exhausted_start_fetch_aborts_the_run:
  "(\<exists>sched. outcome (run_flow (ex_env (net_always not_json_response)) ex_callback
        (APIFlow [APILinkage ex_start ex_end ex_linkage]) [(''id'', ''1'')] (Suc 9) sched
        (new_Getter 3)) \<noteq> None)
   \<and> (\<forall>sched. outcome (run_flow (ex_env (net_always not_json_response)) ex_callback
        (APIFlow [APILinkage ex_start ex_end ex_linkage]) [(''id'', ''1'')] (Suc 9) sched
        (new_Getter 3)) \<noteq> None \<longrightarrow>
      run_flow (ex_env (net_always not_json_response)) ex_callback
        (APIFlow [APILinkage ex_start ex_end ex_linkage]) [(''id'', ''1'')] (Suc 9) sched
        (new_Getter 3) =
        \<lparr>getter =
           \<lparr>cache = Map.empty, max_retries = 3,
            trace = [Fetch_with_retry (base_url ex_start) [(''id'', ''1'')],
                     Request (build_request ex_start ''https://xkcd.com/{id}/info.0.json1'' []),
                     Log_retrying (base_url ex_start) 200, Sleep 1,
                     Request (build_request ex_start ''https://xkcd.com/{id}/info.0.json1'' []),
                     Log_retrying (base_url ex_start) 200, Sleep 2,
                     Request (build_request ex_start ''https://xkcd.com/{id}/info.0.json1'' []),
                     Log_retrying (base_url ex_start) 200, Sleep 4,
                     Log_gave_up 3 (base_url ex_start)]\<rparr>,
         permits = Suc 9,
         shared = [base_url ex_start \<mapsto> Empty_result],
         tasks = [Returned (Inl (KeyError ''output''))],
         raised = Some (KeyError ''output'')\<rparr>)"
proof -
  let ?env = "ex_env (net_always not_json_response)"
  let ?rq = "build_request ex_start ''https://xkcd.com/{id}/info.0.json1'' []"
  let ?s1 = "\<lparr>cache = Map.empty, max_retries = 3,
       trace = [Fetch_with_retry (base_url ex_start) [(''id'', ''1'')],
                Request ?rq, Log_retrying (base_url ex_start) 200, Sleep 1,
                Request ?rq, Log_retrying (base_url ex_start) 200, Sleep 2,
                Request ?rq, Log_retrying (base_url ex_start) 200, Sleep 4,
                Log_gave_up 3 (base_url ex_start)]\<rparr>"
  let ?final = "\<lparr>getter = ?s1, permits = Suc 9,
                  shared = [base_url ex_start \<mapsto> Empty_result],
                  tasks = [Returned (Inl (KeyError ''output''))],
                  raised = Some (KeyError ''output'')\<rparr>"
  have three: "[0..<3] = [0, Suc 0, Suc (Suc 0)]"
    by (simp add: upt_conv_Cons)
  have f: "fetch ?env ex_start [(''id'', ''1'')] \<lparr>cache = Map.empty, max_retries = 3, trace = t\<rparr> =
     (Inl (ClientResponseError 200),
      \<lparr>cache = Map.empty, max_retries = 3, trace = t @ [Request ?rq]\<rparr>)" for t
    by (simp add: fetch_def ex_env_def net_always_def not_json_response_def url_parameters_def
        data_parameters_def add_events_def ex_start_def)
  have fw: "fetch_with_retry ?env ex_start [(''id'', ''1'')] (new_Getter 3) = (Inr Empty_result, ?s1)"
    by (simp add: fetch_with_retry_def new_Getter_def add_events_def three f)
  have cont: "act ?env ex_callback [(''id'', ''1'')] (Continue 0)
       \<lparr>getter = ?s1, permits = Suc 9, shared = Map.empty,
        tasks = [At_start ex_start ex_end ex_linkage (Finished (Inr Empty_result))],
        raised = None\<rparr> = ?final"
    by simp
  have fixed: "fold (act ?env ex_callback [(''id'', ''1'')]) post ?final = ?final
      \<and> outcome ?final = Some (Inl (KeyError ''output''))" for post
    by (rule raised_outcome) simp_all
  have ends: "\<exists>sched. outcome (run_flow ?env ex_callback
        (APIFlow [APILinkage ex_start ex_end ex_linkage]) [(''id'', ''1'')] (Suc 9) sched
        (new_Getter 3)) \<noteq> None"
  proof -
    from lone_api_step_runs[OF fw, of ex_callback ex_end ex_linkage 9 Map.empty]
    obtain pre where "\<forall>post. run_tasks ?env ex_callback [APILinkage ex_start ex_end ex_linkage]
        [(''id'', ''1'')] (Suc 9) Map.empty (pre @ post) (new_Getter 3) =
          fold (act ?env ex_callback [(''id'', ''1'')]) post ?final"
      unfolding cont by auto
    then have "run_tasks ?env ex_callback [APILinkage ex_start ex_end ex_linkage]
        [(''id'', ''1'')] (Suc 9) Map.empty (pre @ []) (new_Getter 3) = ?final"
      by (simp del: append_Nil2)
    then have "outcome (run_flow ?env ex_callback
        (APIFlow [APILinkage ex_start ex_end ex_linkage]) [(''id'', ''1'')] (Suc 9) pre
        (new_Getter 3)) = Some (Inl (KeyError ''output''))"
      using fixed[of "[]"] by (simp add: run_flow_def)
    then show ?thesis
      by (intro exI[of _ pre]) simp
  qed
  have all: "run_flow ?env ex_callback
        (APIFlow [APILinkage ex_start ex_end ex_linkage]) [(''id'', ''1'')] (Suc 9) sched
        (new_Getter 3) = ?final"
    if fin: "outcome (run_flow ?env ex_callback
        (APIFlow [APILinkage ex_start ex_end ex_linkage]) [(''id'', ''1'')] (Suc 9) sched
        (new_Getter 3)) \<noteq> None" for sched
  proof -
    from fin have fin': "outcome (run_tasks ?env ex_callback [APILinkage ex_start ex_end ex_linkage]
        [(''id'', ''1'')] (Suc 9) Map.empty sched (new_Getter 3)) \<noteq> None"
      by (simp add: run_flow_def)
    from lone_api_step[OF fin' fw] show ?thesis
      unfolding cont using fixed by (auto simp: run_flow_def)
  qed
  from ends all show ?thesis
    by blast
qed

theorem exhausted_start_fetch_aborts_the_run_witness:
  "outcome (run_flow (ex_env (net_always not_json_response)) ex_callback
        (APIFlow [APILinkage ex_start ex_end ex_linkage]) [(''id'', ''1'')] (Suc 9)
        (Continue 0 # replicate 10 (Resume 0 0) @ [Continue 0])
        (new_Getter 3)) = Some (Inl (KeyError ''output''))
   \<and> trace (getter (run_flow (ex_env (net_always not_json_response)) ex_callback
        (APIFlow [APILinkage ex_start ex_end ex_linkage]) [(''id'', ''1'')] (Suc 9)
        (Continue 0 # replicate 10 (Resume 0 0) @ [Continue 0])
        (new_Getter 3))) =
       [Fetch_with_retry (base_url ex_start) [(''id'', ''1'')],
        Request (build_request ex_start ''https://xkcd.com/{id}/info.0.json1'' []),
        Log_retrying (base_url ex_start) 200, Sleep 1,
        Request (build_request ex_start ''https://xkcd.com/{id}/info.0.json1'' []),
        Log_retrying (base_url ex_start) 200, Sleep 2,
        Request (build_request ex_start ''https://xkcd.com/{id}/info.0.json1'' []),
        Log_retrying (base_url ex_start) 200, Sleep 4,
        Log_gave_up 3 (base_url ex_start)]"
proof -
  let ?run = "run_flow (ex_env (net_always not_json_response)) ex_callback
        (APIFlow [APILinkage ex_start ex_end ex_linkage]) [(''id'', ''1'')] (Suc 9)
        (Continue 0 # replicate 10 (Resume 0 0) @ [Continue 0])
        (new_Getter 3)"
  have ten: "replicate 10 x = [x, x, x, x, x, x, x, x, x, x]" for x :: action
    by (simp add: numeral_eq_Suc)
  have o: "outcome ?run = Some (Inl (KeyError ''output''))"
    by (simp add: ten run_flow_def run_tasks_def new_Getter_def begin_attempt_def
        on_exception_def add_events_def ex_env_def net_always_def not_json_response_def
        url_parameters_def data_parameters_def ex_start_def outcome_def n_requests_def
        cache_key_def build_request_def Let_def)
  then have "outcome ?run \<noteq> None"
    by simp
  with exhausted_start_fetch_aborts_the_run
  have "?run =
        \<lparr>getter =
           \<lparr>cache = Map.empty, max_retries = 3,
            trace = [Fetch_with_retry (base_url ex_start) [(''id'', ''1'')],
                     Request (build_request ex_start ''https://xkcd.com/{id}/info.0.json1'' []),
                     Log_retrying (base_url ex_start) 200, Sleep 1,
                     Request (build_request ex_start ''https://xkcd.com/{id}/info.0.json1'' []),
                     Log_retrying (base_url ex_start) 200, Sleep 2,
                     Request (build_request ex_start ''https://xkcd.com/{id}/info.0.json1'' []),
                     Log_retrying (base_url ex_start) 200, Sleep 4,
                     Log_gave_up 3 (base_url ex_start)]\<rparr>,
         permits = Suc 9,
         shared = [base_url ex_start \<mapsto> Empty_result],
         tasks = [Returned (Inl (KeyError ''output''))],
         raised = Some (KeyError ''output'')\<rparr>"
    by blast
  then have "trace (getter ?run) =
       [Fetch_with_retry (base_url ex_start) [(''id'', ''1'')],
        Request (build_request ex_start ''https://xkcd.com/{id}/info.0.json1'' []),
        Log_retrying (base_url ex_start) 200, Sleep 1,
        Request (build_request ex_start ''https://xkcd.com/{id}/info.0.json1'' []),
        Log_retrying (base_url ex_start) 200, Sleep 2,
        Request (build_request ex_start ''https://xkcd.com/{id}/info.0.json1'' []),
        Log_retrying (base_url ex_start) 200, Sleep 4,
        Log_gave_up 3 (base_url ex_start)]"
    by (simp only: pool.simps Getter.simps)
  with o show ?thesis
    by (intro conjI)
qed

section \<open>Facts about the fan-out\<close>


























section \<open>Facts about a gather\<close>

lemma started_append: "started b (xs @ ys) = started b xs @ started b ys"
  by (simp add: started_def)











end
